(* ===== verification/Prelude.thy ===== *)
theory Prelude
  imports Complex_Main "HOL-Library.Sublist" "HOL-Library.AList"
begin

text \<open>
  Shared vocabulary of the development.

  \<^item> \<open>exc\<close>: the Python exceptions the program raises or catches, with the subclass tests
    its \<open>except\<close> clauses make.  A call that may raise returns \<open>exc + 'a\<close>.
  \<^item> Python text.  Names of accounts, hosts, paths, passwords and protocol bytes are HOL
    strings: a character is a byte, or a code point up to U+00FF.  Folder names, which the
    program decodes from UTF-16, are lists of code points (\<^typ>\<open>nat list\<close>).
  \<^item> The operations of \<open>str\<close>, \<open>bytes\<close>, \<open>list\<close> and \<open>dict\<close> the program uses: \<open>strip\<close>, \<open>lower\<close>,
    \<open>upper\<close>, \<open>replace\<close>, \<open>find\<close>, slices with a negative bound, insertion-ordered
    dictionaries as association lists.
  \<^item> The collections \<open>py_simps\<close> (evaluation of these operations) and \<open>path_simps\<close>
    (which file names differ from which), used by the component theories.
\<close>

named_theorems py_simps \<open>rewrite rules for the Python operations\<close>
named_theorems path_simps \<open>distinctness of the paths the program builds\<close>

subsection \<open>Exceptions and results\<close>

datatype exc =
    FileNotFoundError
  | OSError
  | SocketTimeout
  | ValueError
  | BinasciiError
  | UnicodeError
  | AttributeError
  | InvalidToken
  | ImapError
  | ImapAbort
  | SmtpAuthenticationError
  | SmtpRecipientsRefused
  | SmtpException
  | TimeoutExpired
  | SystemExit int
  | OtherException

text \<open>
  \<open>except OSError\<close> also catches \<open>FileNotFoundError\<close>, \<open>socket.timeout\<close> (an alias of
  \<open>TimeoutError\<close>) and \<open>smtplib.SMTPException\<close> with its subclasses;
  \<open>except imaplib.IMAP4.error\<close> also catches its subclass \<open>IMAP4.abort\<close>;
  \<open>except ValueError\<close> also catches \<open>binascii.Error\<close> and \<open>UnicodeError\<close>;
  \<open>except Exception\<close> catches everything here but \<open>SystemExit\<close>.
\<close>

fun is_os_error :: "exc \<Rightarrow> bool" where
  "is_os_error FileNotFoundError = True"
| "is_os_error OSError = True"
| "is_os_error SocketTimeout = True"
| "is_os_error SmtpAuthenticationError = True"
| "is_os_error SmtpRecipientsRefused = True"
| "is_os_error SmtpException = True"
| "is_os_error _ = False"

fun is_imap_error :: "exc \<Rightarrow> bool" where
  "is_imap_error ImapError = True"
| "is_imap_error ImapAbort = True"
| "is_imap_error _ = False"

fun is_value_error :: "exc \<Rightarrow> bool" where
  "is_value_error ValueError = True"
| "is_value_error BinasciiError = True"
| "is_value_error UnicodeError = True"
| "is_value_error _ = False"

fun is_exception :: "exc \<Rightarrow> bool" where
  "is_exception (SystemExit _) = False"
| "is_exception _ = True"

type_synonym 'a result = "exc + 'a"

text \<open>\<open>for x in xs: out.append(f(x))\<close> where \<open>f\<close> may raise.\<close>

fun map_result :: "('a \<Rightarrow> 'b result) \<Rightarrow> 'a list \<Rightarrow> 'b list result" where
  "map_result f [] = Inr []"
| "map_result f (x # xs) =
     (case f x of Inl e \<Rightarrow> Inl e
      | Inr y \<Rightarrow> (case map_result f xs of Inl e \<Rightarrow> Inl e | Inr ys \<Rightarrow> Inr (y # ys)))"

lemma map_result_Inr_set:
  "map_result f xs = Inr ys \<Longrightarrow> y \<in> set ys \<Longrightarrow> \<exists>x\<in>set xs. f x = Inr y"
  by (induction xs arbitrary: ys) (auto split: sum.splits)

lemma map_result_Inr_all:
  "map_result f xs = Inr ys \<Longrightarrow> x \<in> set xs \<Longrightarrow> \<exists>y\<in>set ys. f x = Inr y"
  by (induction xs arbitrary: ys) (auto split: sum.splits)

lemma map_result_length: "map_result f xs = Inr ys \<Longrightarrow> length ys = length xs"
  by (induction xs arbitrary: ys) (auto split: sum.splits)

lemma map_result_pure: "map_result (\<lambda>x. Inr (f x)) xs = Inr (map f xs)"
  by (induction xs) auto

subsection \<open>Characters\<close>

definition str_space :: "char \<Rightarrow> bool" where
  "str_space c = (let n = (of_char c :: nat) in
     (9 \<le> n \<and> n \<le> 13) \<or> (28 \<le> n \<and> n \<le> 32) \<or> n = 133 \<or> n = 160)"

definition byte_space :: "char \<Rightarrow> bool" where
  "byte_space c = (let n = (of_char c :: nat) in (9 \<le> n \<and> n \<le> 13) \<or> n = 32)"

text \<open>\<open>str.lower\<close> on code points up to U+00FF, \<open>bytes.upper\<close> on bytes.\<close>

definition lower_char :: "char \<Rightarrow> char" where
  "lower_char c = (let n = (of_char c :: nat) in
     if (65 \<le> n \<and> n \<le> 90) \<or> (192 \<le> n \<and> n \<le> 222 \<and> n \<noteq> 215) then char_of (n + 32) else c)"

definition upper_byte :: "char \<Rightarrow> char" where
  "upper_byte c = (let n = (of_char c :: nat) in
     if 97 \<le> n \<and> n \<le> 122 then char_of (n - 32) else c)"

definition lower :: "string \<Rightarrow> string" where
  "lower s = map lower_char s"

definition upper_bytes :: "string \<Rightarrow> string" where
  "upper_bytes s = map upper_byte s"

lemma lower_char_idem [simp]: "lower_char (lower_char c) = lower_char c"
proof -
  have "(of_char c :: nat) < 256" by simp
  then show ?thesis by (auto simp: lower_char_def Let_def of_char_of)
qed

lemma lower_idem [simp]: "lower (lower s) = lower s"
  by (simp add: lower_def comp_def)

lemma str_space_lower_char [simp]: "str_space (lower_char c) = str_space c"
proof -
  have "(of_char c :: nat) < 256" by simp
  then show ?thesis by (auto simp: lower_char_def str_space_def Let_def of_char_of)
qed

lemma lower_Nil [simp]: "lower [] = []"
  by (simp add: lower_def)

lemma lower_eq_Nil [simp]: "lower s = [] \<longleftrightarrow> s = []"
  by (simp add: lower_def)

lemma lower_append [simp]: "lower (s @ t) = lower s @ lower t"
  by (simp add: lower_def)

lemma length_lower [simp]: "length (lower s) = length s"
  by (simp add: lower_def)

lemma last_lower: "s \<noteq> [] \<Longrightarrow> last (lower s) = lower_char (last s)"
  by (simp add: lower_def last_map)

subsection \<open>Stripping\<close>

definition strip_by :: "('a \<Rightarrow> bool) \<Rightarrow> 'a list \<Rightarrow> 'a list" where
  "strip_by P s = rev (dropWhile P (rev (dropWhile P s)))"

definition strip :: "string \<Rightarrow> string" where
  "strip s = strip_by str_space s"

definition strip_bytes :: "string \<Rightarrow> string" where
  "strip_bytes s = strip_by byte_space s"

lemma strip_by_last: "strip_by P s \<noteq> [] \<Longrightarrow> \<not> P (last (strip_by P s))"
  by (simp add: strip_by_def last_rev hd_dropWhile)

lemma strip_by_hd: "strip_by P s \<noteq> [] \<Longrightarrow> \<not> P (hd (strip_by P s))"
proof -
  let ?d = "dropWhile P s"
  assume ne: "strip_by P s \<noteq> []"
  then have "?d \<noteq> []" by (metis strip_by_def dropWhile.simps(1) rev.simps(1))
  then have hd: "\<not> P (hd ?d)" by (rule hd_dropWhile)
  have "prefix (strip_by P s) ?d"
    unfolding strip_by_def
    by (metis prefix_def rev_append rev_rev_ident takeWhile_dropWhile_id)
  then have "hd (strip_by P s) = hd ?d"
    using ne by (auto simp: prefix_def)
  with hd show ?thesis by simp
qed

lemma strip_by_id: "s \<noteq> [] \<Longrightarrow> \<not> P (hd s) \<Longrightarrow> \<not> P (last s) \<Longrightarrow> strip_by P s = s"
proof -
  assume ne: "s \<noteq> []" and h: "\<not> P (hd s)" and l: "\<not> P (last s)"
  from ne h have "dropWhile P s = s" by (cases s) auto
  moreover from ne l have "dropWhile P (rev s) = rev s"
    by (cases s rule: rev_cases) auto
  ultimately show ?thesis by (simp add: strip_by_def)
qed

lemma strip_by_Nil [simp]: "strip_by P [] = []"
  by (simp add: strip_by_def)

lemma strip_by_idem [simp]: "strip_by P (strip_by P s) = strip_by P s"
  by (cases "strip_by P s = []") (auto intro!: strip_by_id dest: strip_by_hd strip_by_last)

subsection \<open>Searching and replacing\<close>

text \<open>\<open>s.find(c)\<close> for a single character; \<open>None\<close> is -1.\<close>

fun find_elem :: "'a \<Rightarrow> 'a list \<Rightarrow> nat option" where
  "find_elem c [] = None"
| "find_elem c (x # xs) = (if x = c then Some 0 else map_option Suc (find_elem c xs))"

lemma find_elem_None [simp]: "find_elem c xs = None \<longleftrightarrow> c \<notin> set xs"
  by (induction xs) auto

lemma find_elem_append: "c \<notin> set xs \<Longrightarrow> find_elem c (xs @ c # ys) = Some (length xs)"
  by (induction xs) auto

lemma find_elem_Some:
  "find_elem c xs = Some j \<Longrightarrow> j < length xs \<and> xs ! j = c \<and> c \<notin> set (take j xs)"
  by (induction xs arbitrary: j) (auto split: if_splits)

text \<open>\<open>s.replace(old, new)\<close> for a nonempty \<open>old\<close>: left to right, not overlapping.\<close>

function replace_all :: "'a list \<Rightarrow> 'a list \<Rightarrow> 'a list \<Rightarrow> 'a list" where
  "replace_all old new [] = []"
| "replace_all old new (x # xs) =
     (if old \<noteq> [] \<and> prefix old (x # xs) then new @ replace_all old new (drop (length old) (x # xs))
      else x # replace_all old new xs)"
  by pat_completeness auto
termination
proof (relation "measure (\<lambda>(old, new, s). length s)", goal_cases)
  case (2 old new x xs)
  then show ?case by (cases old) auto
qed auto

lemma replace_all_single:
  "replace_all [a] new s = concat (map (\<lambda>c. if c = a then new else [c]) s)"
  by (induction s) (auto simp: prefix_def)

text \<open>\<open>sep.join(parts)\<close>.\<close>

fun join :: "'a list \<Rightarrow> 'a list list \<Rightarrow> 'a list" where
  "join sep [] = []"
| "join sep [x] = x"
| "join sep (x # y # r) = x @ sep @ join sep (y # r)"

subsection \<open>Slices with a negative bound\<close>

text \<open>\<open>xs[:k]\<close> and \<open>xs[k:]\<close> for any integer \<open>k\<close>.\<close>

definition slice_to :: "int \<Rightarrow> 'a list \<Rightarrow> 'a list" where
  "slice_to k xs = (if k < 0 then take (nat (int (length xs) + k)) xs else take (nat k) xs)"

definition slice_from :: "int \<Rightarrow> 'a list \<Rightarrow> 'a list" where
  "slice_from k xs = (if k < 0 then drop (nat (int (length xs) + k)) xs else drop (nat k) xs)"

lemma length_slice_from_neg: "0 < k \<Longrightarrow> length (slice_from (- k) xs) \<le> nat k"
  by (auto simp: slice_from_def)

lemma slice_to_neg: "0 < k \<Longrightarrow> slice_to (- k) xs = take (length xs - nat k) xs"
  by (auto simp: slice_to_def intro!: arg_cong [where f = "\<lambda>n. take n xs"])

lemma slice_from_neg: "0 < k \<Longrightarrow> slice_from (- k) xs = drop (length xs - nat k) xs"
  by (auto simp: slice_from_def intro!: arg_cong [where f = "\<lambda>n. drop n xs"])

lemma slice_to_zero [simp]: "slice_to 0 xs = []"
  by (simp add: slice_to_def)

lemma slice_from_zero [simp]: "slice_from 0 xs = xs"
  by (simp add: slice_from_def)

subsection \<open>Decimal text\<close>

text \<open>\<open>str(n)\<close> of a natural number.\<close>

fun show_nat :: "nat \<Rightarrow> string" where
  "show_nat n = (if n < 10 then [char_of (48 + n)] else show_nat (n div 10) @ [char_of (48 + n mod 10)])"

declare show_nat.simps [simp del]

lemma show_nat_not_Nil [simp]: "show_nat n \<noteq> []"
  by (subst show_nat.simps) simp

subsection \<open>Code points\<close>

text \<open>A literal as code points.\<close>

definition lit :: "string \<Rightarrow> nat list" where
  "lit s = map of_char s"

lemma lit_Nil [simp]: "lit [] = []"
  by (simp add: lit_def)

lemma lit_append [simp]: "lit (s @ t) = lit s @ lit t"
  by (simp add: lit_def)

lemma lit_inject [simp]: "lit s = lit t \<longleftrightarrow> s = t"
  by (auto simp: lit_def inj_def intro: map_injective)

lemma char_cong: "(of_char c :: nat) = of_char d \<longleftrightarrow> c = d"
  by simp

text \<open>\<open>s.encode("utf-8")\<close> for code points up to U+00FF.\<close>

definition utf8_char :: "char \<Rightarrow> string" where
  "utf8_char c = (let n = (of_char c :: nat) in
     if n < 128 then [c] else [char_of (192 + n div 64), char_of (128 + n mod 64)])"

definition utf8 :: "string \<Rightarrow> string" where
  "utf8 s = concat (map utf8_char s)"

end
