(* ===== verification/FileStore.thy ===== *)
theory FileStore
  imports Prelude
begin

text \<open>
  The part of the machine the mail container's scripts act on: files by absolute path, with
  their contents and permission bits, the directories in listing order, the trace of login
  attempts made at the university, and which paths a \<open>chown\<close> has handed over to the mail user.
  Paths are compared as strings; failures of the operating system other than a missing file and a
  refused \<open>chown\<close> (full disk, permissions, a path component that is a file) and symbolic links are
  not modelled.

  \<^item> \<open>path_join\<close>, \<open>base_name\<close>, \<open>dir_name\<close>, \<open>makedirs\<close>: the functions of \<open>os\<close> and \<open>os.path\<close>.
  \<^item> \<open>file_op\<close>: the primitive effects an atomic write is made of, so that a crash between any
    two of them is a prefix of a list of operations.
  \<^item> The locale \<open>file_store\<close> is the contract the clients rely on: reading after a write, a
    removal and a rename.
\<close>

subsection \<open>State\<close>

text \<open>
  \<open>FloatText t\<close> is the text \<open>str(t)\<close> of a float, which \<open>float()\<close> reads back as \<open>t\<close>; the only
  file that holds one is the cooldown marker.
\<close>

datatype content = Bytes string | FloatText rat

type_synonym entry = "content \<times> nat"

record world =
  files :: "string \<Rightarrow> entry option"
  dirs :: "string list"
  uni_log :: "(string \<times> rat) list"
  handed_over :: "string \<Rightarrow> bool"
  may_chown :: bool

fun text_of :: "content \<Rightarrow> string" where
  "text_of (Bytes s) = s"
| "text_of (FloatText t) = []"

text \<open>\<open>float(text)\<close>: anything that is not the text of a float is a \<open>ValueError\<close>.\<close>

fun float_of :: "content \<Rightarrow> rat option" where
  "float_of (FloatText t) = Some t"
| "float_of (Bytes s) = None"

definition read_file :: "world \<Rightarrow> string \<Rightarrow> content option" where
  "read_file w p = map_option fst (files w p)"

definition is_file :: "world \<Rightarrow> string \<Rightarrow> bool" where
  "is_file w p \<longleftrightarrow> files w p \<noteq> None"

subsection \<open>Paths\<close>

text \<open>\<open>os.path.join(a, b)\<close>: an absolute \<open>b\<close> replaces \<open>a\<close>.\<close>

definition path_join :: "string \<Rightarrow> string \<Rightarrow> string" where
  "path_join a b =
     (if prefix ''/'' b then b
      else if a = [] \<or> last a = CHR ''/'' then a @ b
      else a @ ''/'' @ b)"

text \<open>The text after the last slash, and the text before it.\<close>

definition base_name :: "string \<Rightarrow> string" where
  "base_name p = rev (takeWhile (\<lambda>c. c \<noteq> CHR ''/'') (rev p))"

definition dir_name :: "string \<Rightarrow> string" where
  "dir_name p = rev (tl (dropWhile (\<lambda>c. c \<noteq> CHR ''/'') (rev p)))"

definition slash_free :: "string \<Rightarrow> bool" where
  "slash_free s \<longleftrightarrow> CHR ''/'' \<notin> set s"

text \<open>\<open>os.makedirs(p, exist_ok=True)\<close>: every missing ancestor, then \<open>p\<close> itself.\<close>

definition ancestors :: "string \<Rightarrow> string list" where
  "ancestors p = [take i p. i \<leftarrow> [1..<length p], p ! i = CHR ''/''] @ [p]"

definition make_dir :: "string \<Rightarrow> string list \<Rightarrow> string list" where
  "make_dir p ds = (if p \<in> set ds then ds else ds @ [p])"

definition makedirs :: "string \<Rightarrow> world \<Rightarrow> world" where
  "makedirs p w = w\<lparr>dirs := fold make_dir (ancestors p) (dirs w)\<rparr>"

subsection \<open>Primitive effects\<close>

text \<open>
  \<open>Put\<close> is \<open>open(p, "wb")\<close> with the bytes that reached the file so far (a new file gets the
  default mode 0644 and belongs to the process that makes it, an old one keeps mode and owner), \<open>Chmod\<close> is \<open>os.chmod\<close>, \<open>Rename\<close> is \<open>os.replace\<close>, \<open>Remove\<close> is \<open>os.remove\<close>
  of a file that exists.  \<open>handed_over\<close> holds for the paths that belong to the mail user because
  \<open>os.chown\<close> gave them to it; the owner goes with the file when it is renamed.
\<close>

datatype file_op = Put string content | Chmod string nat | Rename string string | Remove string

definition put_file :: "string \<Rightarrow> content \<Rightarrow> world \<Rightarrow> world" where
  "put_file p c w =
     w\<lparr>files := (files w)(p := Some (c, case files w p of None \<Rightarrow> 420 | Some e \<Rightarrow> snd e)),
       handed_over := (handed_over w)(p := files w p \<noteq> None \<and> handed_over w p)\<rparr>"

definition chmod_file :: "string \<Rightarrow> nat \<Rightarrow> world \<Rightarrow> world" where
  "chmod_file p m w = w\<lparr>files := (files w)(p := map_option (\<lambda>e. (fst e, m)) (files w p))\<rparr>"

definition rename_file :: "string \<Rightarrow> string \<Rightarrow> world \<Rightarrow> world" where
  "rename_file p q w =
     (if p = q \<or> files w p = None then w else w\<lparr>files := (files w)(q := files w p, p := None),
               handed_over := (handed_over w)(q := handed_over w p, p := False)\<rparr>)"

definition remove_file :: "string \<Rightarrow> world \<Rightarrow> world" where
  "remove_file p w = w\<lparr>files := (files w)(p := None), handed_over := (handed_over w)(p := False)\<rparr>"

fun apply_op :: "file_op \<Rightarrow> world \<Rightarrow> world" where
  "apply_op (Put p c) w = put_file p c w"
| "apply_op (Chmod p m) w = chmod_file p m w"
| "apply_op (Rename p q) w = rename_file p q w"
| "apply_op (Remove p) w = remove_file p w"

definition run_ops :: "file_op list \<Rightarrow> world \<Rightarrow> world" where
  "run_ops ops w = fold apply_op ops w"

lemma run_ops_simps [simp]:
  "run_ops [] w = w" "run_ops (x # xs) w = run_ops xs (apply_op x w)"
  by (simp_all add: run_ops_def)

lemma world_frame [simp]:
  "dirs (put_file p c w) = dirs w" "uni_log (put_file p c w) = uni_log w"
  "dirs (chmod_file p m w) = dirs w" "uni_log (chmod_file p m w) = uni_log w"
  "dirs (rename_file p q w) = dirs w" "uni_log (rename_file p q w) = uni_log w"
  "dirs (remove_file p w) = dirs w" "uni_log (remove_file p w) = uni_log w"
  "files (makedirs p w) = files w" "uni_log (makedirs p w) = uni_log w"
  "handed_over (makedirs p w) = handed_over w" "handed_over (chmod_file p m w) = handed_over w"
  "may_chown (put_file p c w) = may_chown w" "may_chown (chmod_file p m w) = may_chown w"
  "may_chown (rename_file p q w) = may_chown w" "may_chown (remove_file p w) = may_chown w"
  "may_chown (makedirs p w) = may_chown w"
  by (simp_all add: put_file_def chmod_file_def rename_file_def remove_file_def makedirs_def)

lemma apply_op_frame [simp]:
  "dirs (apply_op x w) = dirs w" "uni_log (apply_op x w) = uni_log w" "may_chown (apply_op x w) = may_chown w"
  by (cases x; simp)+

lemma run_ops_frame [simp]:
  "dirs (run_ops ops w) = dirs w" "uni_log (run_ops ops w) = uni_log w" "may_chown (run_ops ops w) = may_chown w"
  by (induction ops arbitrary: w) simp_all

subsection \<open>The contract of a file store\<close>

locale file_store =
  fixes get :: "'s \<Rightarrow> 'p \<Rightarrow> 'e option"
    and put :: "'p \<Rightarrow> 'e \<Rightarrow> 's \<Rightarrow> 's"
    and remove :: "'p \<Rightarrow> 's \<Rightarrow> 's"
    and rename :: "'p \<Rightarrow> 'p \<Rightarrow> 's \<Rightarrow> 's"
  assumes get_put: "get (put p e s) q = (if q = p then Some e else get s q)"
    and get_remove: "get (remove p s) q = (if q = p then None else get s q)"
    and get_rename: "p \<noteq> q \<Longrightarrow> get s p = Some e \<Longrightarrow>
          get (rename p q s) r = (if r = q then Some e else if r = p then None else get s r)"
begin

text \<open>Removing a list of names: what is left is what was not named.\<close>

lemma get_remove_all: "get (fold remove ps s) q = (if q \<in> set ps then None else get s q)"
  by (induction ps arbitrary: s) (auto simp: get_remove)

text \<open>Writing to a temporary name and renaming: only the target changes for good.\<close>

lemma get_put_rename:
  "t \<noteq> p \<Longrightarrow> get (rename t p (put t e s)) q = (if q = p then Some e else if q = t then None else get s q)"
  by (auto simp: get_rename [of t p _ e] get_put)

lemma get_put_rename_twice:
  assumes "t \<noteq> p" "t' \<noteq> p'" "p \<noteq> p'" "t \<noteq> p'" "t' \<noteq> p" "q \<noteq> t" "q \<noteq> t'"
  shows "get (rename t' p' (put t' e' (rename t p (put t e s)))) q =
    (if q = p' then Some e' else if q = p then Some e else get s q)"
  using assms by (auto simp: get_put_rename)

end

definition set_entry :: "string \<Rightarrow> entry \<Rightarrow> world \<Rightarrow> world" where
  "set_entry p e w =
     w\<lparr>files := (files w)(p := Some e), handed_over := (handed_over w)(p := files w p \<noteq> None \<and> handed_over w p)\<rparr>"

interpretation fs: file_store files set_entry remove_file rename_file
  by unfold_locales (auto simp: set_entry_def remove_file_def rename_file_def)

lemma read_file_put: "read_file (put_file p c w) q = (if q = p then Some c else read_file w q)"
  by (simp add: read_file_def put_file_def)

subsection \<open>Atomic writes\<close>

text \<open>
  The effects of \<open>_write(path, data)\<close> of \<open>mail/authcheck.py\<close>: open the temporary file (which
  truncates it), write, close, restrict the mode, replace.
\<close>

definition write_ops :: "string \<Rightarrow> content \<Rightarrow> file_op list" where
  "write_ops p c = (let tmp = p @ ''.tmp'' in
     [Put tmp (Bytes []), Put tmp c, Chmod tmp 384, Rename tmp p])"

definition write_atomic :: "string \<Rightarrow> content \<Rightarrow> world \<Rightarrow> world" where
  "write_atomic p c w = run_ops (write_ops p c) w"

text \<open>
  The machine stops after \<open>n\<close> effects; if it stops while the data is being written, an
  arbitrary part of it, \<open>partial\<close>, has reached the temporary file.
\<close>

definition crash_ops :: "nat \<Rightarrow> content \<Rightarrow> string \<Rightarrow> content \<Rightarrow> file_op list" where
  "crash_ops n partial p c =
     take n (write_ops p c) @ (if n = 1 then [Put (p @ ''.tmp'') partial] else [])"

lemma tmp_neq [simp, path_simps]: "p @ ''.tmp'' \<noteq> p" "p \<noteq> p @ ''.tmp''"
  by simp_all

lemma write_atomic_set_entry:
  "write_atomic p c w = rename_file (p @ ''.tmp'') p (set_entry (p @ ''.tmp'') (c, 384) w)"
  unfolding write_atomic_def write_ops_def Let_def run_ops_simps apply_op.simps
  by (intro arg_cong [where f = "rename_file (p @ ''.tmp'') p"] world.equality)
    (simp_all add: put_file_def chmod_file_def set_entry_def)

lemma files_write_atomic:
  "files (write_atomic p c w) q =
    (if q = p then Some (c, 384) else if q = p @ ''.tmp'' then None else files w q)"
  unfolding write_atomic_set_entry by (rule fs.get_put_rename) simp

lemma read_write_atomic [simp]: "read_file (write_atomic p c w) p = Some c"
  by (simp add: read_file_def files_write_atomic)

lemma write_atomic_frame [simp]:
  "dirs (write_atomic p c w) = dirs w" "uni_log (write_atomic p c w) = uni_log w"
  "may_chown (write_atomic p c w) = may_chown w"
  by (simp_all add: write_atomic_def)

text \<open>A rewritten file belongs to the process that wrote it, unless the temporary one was taken over.\<close>

lemma handed_over_write_atomic:
  "handed_over (write_atomic p c w) q =
    (if q = p then files w (p @ ''.tmp'') \<noteq> None \<and> handed_over w (p @ ''.tmp'')
     else q \<noteq> p @ ''.tmp'' \<and> handed_over w q)"
  by (simp add: write_atomic_set_entry rename_file_def set_entry_def)

lemma crash_old_or_new:
  "files (run_ops (crash_ops n partial p c) w) p \<in> {files w p, Some (c, 384)}"
proof -
  consider "n = 0" | "n = 1" | "n = 2" | "n = 3" | "4 \<le> n" by linarith
  then show ?thesis
  proof cases
    case 5
    then have "crash_ops n partial p c = write_ops p c"
      by (simp add: crash_ops_def write_ops_def Let_def)
    then show ?thesis
      using files_write_atomic [of p c w p] by (simp add: write_atomic_def)
  qed (simp_all add: crash_ops_def write_ops_def Let_def put_file_def chmod_file_def
      numeral_2_eq_2 numeral_3_eq_3)
qed

end
