(* ===== verification/AuthCheck.thy ===== *)
theory AuthCheck
  imports FileStore
begin

text \<open>
  \<open>mail/authcheck.py\<close>: the Dovecot \<open>checkpassword\<close> backend.  The user's name is normalised,
  an enrolled user's password is checked against the stored hash, and otherwise (at most once
  per cooldown) against the university, whose acceptance enrolls the user.

  Parameters: \<open>crypto\<close> holds the system's password hashing (\<open>crypt\<close>) and the \<open>cryptography\<close>
  package's Fernet tokens (the key derived from the master key's bytes); \<open>uni_conn\<close> is what one
  connection to the university does: an exception at connecting, at LOGIN for a user name and
  a password, at LOGOUT, or none.  Log lines are left out.
\<close>

subsection \<open>Configuration and parameters\<close>

definition MASTER_KEY_FILE :: string where
  "MASTER_KEY_FILE = ''/run/mail/master.key''"

definition CREDS_ROOT :: string where
  "CREDS_ROOT = ''/mail/.creds''"

record crypto =
  crypt :: "string \<Rightarrow> string \<Rightarrow> string"
  mksalt :: string
  fernet_enc :: "string \<Rightarrow> string \<Rightarrow> string"
  fernet_dec :: "string \<Rightarrow> string \<Rightarrow> string option"

record uni_conn =
  c_connect :: "exc option"
  c_login :: "string \<Rightarrow> string \<Rightarrow> exc option"
  c_logout :: "exc option"

text \<open>
  What the code relies on: hashing a password with its own hash as the salt gives the hash
  again, a hash has no surrounding whitespace, and a token decrypts to what was encrypted.
\<close>

definition crypto_ok :: "crypto \<Rightarrow> bool" where
  "crypto_ok cr \<longleftrightarrow>
     (\<forall>p. crypt cr p (crypt cr p (mksalt cr)) = crypt cr p (mksalt cr)
          \<and> strip (crypt cr p (mksalt cr)) = crypt cr p (mksalt cr))
     \<and> (\<forall>k s. fernet_dec cr k (fernet_enc cr k s) = Some s)"

subsection \<open>Username handling\<close>

definition normalize_user :: "string \<Rightarrow> string" where
  "normalize_user username =
     (let u = strip username;
          u' = (case find_elem (CHR 0x5C) u of Some j \<Rightarrow> drop (Suc j) u | None \<Rightarrow> u)
      in lower u')"

definition upstream_user :: "string \<Rightarrow> string" where
  "upstream_user email = ''bzedvz'' @ [CHR 0x5C] @ email"

subsection \<open>Encryption\<close>

definition encrypt_secret :: "crypto \<Rightarrow> world \<Rightarrow> string \<Rightarrow> string result" where
  "encrypt_secret cr w secret =
     (case read_file w MASTER_KEY_FILE of
        None \<Rightarrow> Inl FileNotFoundError
      | Some m \<Rightarrow> Inr (fernet_enc cr (text_of m) secret))"

definition decrypt_secret :: "crypto \<Rightarrow> world \<Rightarrow> string \<Rightarrow> string result" where
  "decrypt_secret cr w token =
     (case read_file w MASTER_KEY_FILE of
        None \<Rightarrow> Inl FileNotFoundError
      | Some m \<Rightarrow> (case fernet_dec cr (text_of m) token of
                      None \<Rightarrow> Inl InvalidToken | Some s \<Rightarrow> Inr s))"

subsection \<open>The credential store\<close>

definition creds_dir :: "string \<Rightarrow> string" where
  "creds_dir email = path_join CREDS_ROOT email"

definition cred_path :: "string \<Rightarrow> string \<Rightarrow> string" where
  "cred_path email name = path_join (creds_dir email) name"

definition is_enrolled :: "world \<Rightarrow> string \<Rightarrow> bool" where
  "is_enrolled w email = is_file w (cred_path email ''passhash'')"

definition verify_local :: "crypto \<Rightarrow> world \<Rightarrow> string \<Rightarrow> string \<Rightarrow> bool" where
  "verify_local cr w email password =
     (case read_file w (cred_path email ''passhash'') of
        None \<Rightarrow> False
      | Some c \<Rightarrow> (let stored = strip (text_of c) in crypt cr password stored = stored))"

text \<open>
  The hash is on disk before the secret is encrypted, so a missing master key raises between
  the two writes.
\<close>

text \<open>
  \<open>_own_by_mail\<close>: whatever \<open>os.chown\<close> raises is ignored.  \<open>own_account\<close> is the loop of \<open>enroll\<close> over the
  user's directory, the mailbox and all that \<open>os.listdir\<close> finds in the directory.
\<close>

definition exists_path :: "world \<Rightarrow> string \<Rightarrow> bool" where
  "exists_path w p \<longleftrightarrow> is_file w p \<or> p \<in> set (dirs w)"

definition own_by_mail :: "string \<Rightarrow> world \<Rightarrow> world" where
  "own_by_mail p w =
     (if may_chown w \<and> exists_path w p then w\<lparr>handed_over := (handed_over w)(p := True)\<rparr> else w)"

definition in_listing :: "world \<Rightarrow> string \<Rightarrow> string \<Rightarrow> bool" where
  "in_listing w d q \<longleftrightarrow> q = path_join d (base_name q) \<and> exists_path w q"

definition own_account :: "string \<Rightarrow> string \<Rightarrow> world \<Rightarrow> world" where
  "own_account d mbox w =
     w\<lparr>handed_over := \<lambda>q. handed_over w q \<or>
        may_chown w \<and> ((q = d \<or> q = mbox) \<and> exists_path w q \<or> in_listing w d q)\<rparr>"

definition enroll :: "crypto \<Rightarrow> string \<Rightarrow> string \<Rightarrow> world \<Rightarrow> unit result \<times> world" where
  "enroll cr email password w =
     (let w1 = makedirs (creds_dir email) w;
          w2 = write_atomic (cred_path email ''passhash'')
                 (Bytes (crypt cr password (mksalt cr))) w1
      in case encrypt_secret cr w2 password of
           Inl e \<Rightarrow> (Inl e, w2)
         | Inr token \<Rightarrow>
             (let w3 = write_atomic (cred_path email ''upass.enc'') (Bytes token) w2;
                 mbox = ''/mail/'' @ email
              in (Inr (), own_account (creds_dir email) mbox (makedirs mbox w3))))"

definition deauth :: "string \<Rightarrow> world \<Rightarrow> world" where
  "deauth email w =
     fold remove_file (map (cred_path email) [''passhash'', ''upass.enc'', ''last_uni'']) w"

definition cooldown_ok :: "rat \<Rightarrow> rat \<Rightarrow> string \<Rightarrow> world \<Rightarrow> bool \<times> world" where
  "cooldown_ok UNI_COOLDOWN now email w =
     (let w1 = makedirs (creds_dir email) w;
          marker = cred_path email ''last_uni'';
          last = (case Option.bind (read_file w1 marker) float_of of None \<Rightarrow> 0 | Some t \<Rightarrow> t)
      in if now - last < UNI_COOLDOWN then (False, w1)
         else (True, write_atomic marker (FloatText now) w1))"

subsection \<open>University verification\<close>

text \<open>
  The attempt is recorded in the trace once the connection stands.  \<open>conn.logout()\<close> is inside the
  \<open>try\<close>: an \<open>IMAP4.error\<close> there counts as a rejection too.
\<close>

definition verify_uni :: "uni_conn \<Rightarrow> rat \<Rightarrow> string \<Rightarrow> string \<Rightarrow> world \<Rightarrow> bool result \<times> world" where
  "verify_uni conn now email password w =
     (case c_connect conn of
        Some e \<Rightarrow> (if is_exception e then Inl (SystemExit 111) else Inl e, w)
      | None \<Rightarrow>
          (let w1 = w\<lparr>uni_log := uni_log w @ [(upstream_user email, now)]\<rparr>
           in case c_login conn (upstream_user email) password of
                Some e \<Rightarrow> (if is_imap_error e then Inr False else Inl e, w1)
              | None \<Rightarrow>
                  (case c_logout conn of
                     Some e \<Rightarrow> (if is_imap_error e then Inr False else Inl e, w1)
                   | None \<Rightarrow> (Inr True, w1))))"

subsection \<open>The decision\<close>

text \<open>\<open>cooldown_ok(email) and verify_uni(email, password)\<close>, then \<open>enroll\<close>.\<close>

definition vouch :: "crypto \<Rightarrow> rat \<Rightarrow> uni_conn \<Rightarrow> rat \<Rightarrow> string \<Rightarrow> string \<Rightarrow> world \<Rightarrow> bool result \<times> world" where
  "vouch cr cd conn now email password w =
     (case cooldown_ok cd now email w of
        (False, w1) \<Rightarrow> (Inr False, w1)
      | (True, w1) \<Rightarrow>
          (case verify_uni conn now email password w1 of
             (Inl e, w2) \<Rightarrow> (Inl e, w2)
           | (Inr False, w2) \<Rightarrow> (Inr False, w2)
           | (Inr True, w2) \<Rightarrow>
               (case enroll cr email password w2 of
                  (Inl e, w3) \<Rightarrow> (Inl e, w3)
                | (Inr _, w3) \<Rightarrow> (Inr True, w3))))"

definition authenticate ::
  "crypto \<Rightarrow> rat \<Rightarrow> uni_conn \<Rightarrow> rat \<Rightarrow> string \<Rightarrow> string \<Rightarrow> world \<Rightarrow> bool result \<times> world" where
  "authenticate cr cd conn now email password w =
     (if is_enrolled w email then
        (if verify_local cr w email password then (Inr True, w)
         else vouch cr cd conn now email password w)
      else vouch cr cd conn now email password w)"

text \<open>
  \<open>main\<close>: the bytes of descriptor 3 (\<open>None\<close> when it cannot be read), \<open>dec\<close> the decoding
  \<open>bytes.decode("utf-8", "replace")\<close>, \<open>argv1\<close> the reply program.  An uncaught exception ends the
  interpreter with status 1.
\<close>

datatype outcome = Exit int | Exec string string string

fun split_on :: "'a \<Rightarrow> 'a list \<Rightarrow> 'a list list" where
  "split_on c [] = [[]]"
| "split_on c (x # xs) =
     (if x = c then [] # split_on c xs
      else (case split_on c xs of [] \<Rightarrow> [[x]] | y # ys \<Rightarrow> (x # y) # ys))"

fun exit_of :: "exc \<Rightarrow> outcome" where
  "exit_of (SystemExit n) = Exit n"
| "exit_of _ = Exit 1"

definition main ::
  "crypto \<Rightarrow> rat \<Rightarrow> uni_conn \<Rightarrow> rat \<Rightarrow> (string \<Rightarrow> string) \<Rightarrow> string option \<Rightarrow> string option \<Rightarrow> world
     \<Rightarrow> outcome \<times> world" where
  "main cr cd conn now dec fd3 argv1 w =
     (case fd3 of
        None \<Rightarrow> (Exit 2, w)
      | Some raw \<Rightarrow>
          (let parts = split_on (char_of (0::nat)) raw;
               username = (case parts of [] \<Rightarrow> [] | p # _ \<Rightarrow> dec p);
               password = (case parts of _ # q # _ \<Rightarrow> dec q | _ \<Rightarrow> []);
               email = normalize_user username
           in if password = [] \<or> CHR ''@'' \<notin> set email then (Exit 1, w)
              else (case authenticate cr cd conn now email password w of
                      (Inl e, w1) \<Rightarrow> (exit_of e, w1)
                    | (Inr False, w1) \<Rightarrow> (Exit 1, w1)
                    | (Inr True, w1) \<Rightarrow>
                        (case argv1 of
                           None \<Rightarrow> (Exit 0, w1)
                         | Some reply \<Rightarrow>
                             (if reply = [] then (Exit 0, w1)
                              else (Exec reply email (''/mail/'' @ email), w1))))))"

subsection \<open>Paths of the credential store\<close>

definition plain_user :: "string \<Rightarrow> bool" where
  "plain_user e \<longleftrightarrow> e \<noteq> [] \<and> slash_free e"

lemma slash_split:
  "slash_free a \<Longrightarrow> slash_free b \<Longrightarrow> a @ CHR ''/'' # x = b @ CHR ''/'' # y \<longleftrightarrow> a = b \<and> x = y"
proof (induction a arbitrary: b)
  case Nil
  then show ?case by (cases b) (auto simp: slash_free_def)
next
  case (Cons c a)
  then show ?case by (cases b) (auto simp: slash_free_def)
qed

lemma last_neq: "xs \<noteq> [] \<Longrightarrow> x \<notin> set xs \<Longrightarrow> last xs \<noteq> x"
  by auto

lemma cred_path_plain:
  "plain_user e \<Longrightarrow> slash_free n \<Longrightarrow> cred_path e n = ''/mail/.creds/'' @ e @ CHR ''/'' # n"
  by (cases e; cases n)
    (auto simp: last_neq cred_path_def creds_dir_def path_join_def CREDS_ROOT_def plain_user_def slash_free_def
      split: if_splits)

lemma cred_path_inject [path_simps]:
  "plain_user e \<Longrightarrow> plain_user f \<Longrightarrow> slash_free n \<Longrightarrow> slash_free m \<Longrightarrow>
   cred_path e n = cred_path f m \<longleftrightarrow> e = f \<and> n = m"
  by (simp add: cred_path_plain slash_split plain_user_def)

lemma cred_path_tmp [path_simps]: "n \<noteq> [] \<Longrightarrow> cred_path e n @ ''.tmp'' = cred_path e (n @ ''.tmp'')"
  by (cases n) (simp_all add: cred_path_def path_join_def)

lemma cred_path_not_key [path_simps]:
  "plain_user e \<Longrightarrow> slash_free n \<Longrightarrow> cred_path e n \<noteq> MASTER_KEY_FILE"
  by (simp add: cred_path_plain MASTER_KEY_FILE_def)

lemma slash_free_names [simp, path_simps]:
  "slash_free ''passhash''" "slash_free ''upass.enc''" "slash_free ''last_uni''" "slash_free ''subscribed''"
  "slash_free ''passhash.tmp''" "slash_free ''upass.enc.tmp''" "slash_free ''last_uni.tmp''"
  by (simp_all add: slash_free_def)

text \<open>Handing over changes owners only; in one step it is what the loop does, in whatever order.\<close>

lemma own_account_frame [simp]:
  "files (own_account d m w) = files w" "dirs (own_account d m w) = dirs w" "uni_log (own_account d m w) = uni_log w"
  "may_chown (own_account d m w) = may_chown w" "read_file (own_account d m w) q = read_file w q"
  by (simp_all add: own_account_def read_file_def)

lemma own_by_mail_all:
  "fold own_by_mail qs w = w\<lparr>handed_over := \<lambda>q. handed_over w q \<or> may_chown w \<and> q \<in> set qs \<and> exists_path w q\<rparr>"
proof (induction qs arbitrary: w)
  case (Cons q qs)
  have e: "exists_path (own_by_mail q w) = exists_path w" "may_chown (own_by_mail q w) = may_chown w"
    by (auto simp: own_by_mail_def exists_path_def is_file_def fun_eq_iff)
  show ?case unfolding fold_simps comp_def Cons.IH e
    by (intro world.equality) (auto simp: own_by_mail_def fun_eq_iff)
qed (simp add: world.equality)

lemma own_account_loop:
  assumes "set names = {q. in_listing w d q}"
  shows "fold own_by_mail (d # mbox # names) w = own_account d mbox w"
  unfolding own_by_mail_all own_account_def
  by (intro world.equality) (use assms in \<open>auto simp: in_listing_def\<close>)

text \<open>The files an authentication of \<open>e\<close> may write.\<close>

definition own_names :: "string list" where
  "own_names = [''passhash'', ''upass.enc'', ''last_uni'', ''passhash.tmp'', ''upass.enc.tmp'', ''last_uni.tmp'']"

definition own_paths :: "string \<Rightarrow> string list" where
  "own_paths e = map (cred_path e) own_names"

lemma own_names_slash_free: "n \<in> set own_names \<Longrightarrow> slash_free n"
  by (auto simp: own_names_def)

lemma own_paths_other:
  "plain_user e \<Longrightarrow> plain_user f \<Longrightarrow> e \<noteq> f \<Longrightarrow> slash_free n \<Longrightarrow> cred_path f n \<notin> set (own_paths e)"
  by (auto simp: own_paths_def cred_path_inject own_names_slash_free)

lemma own_paths_not_key: "plain_user e \<Longrightarrow> MASTER_KEY_FILE \<notin> set (own_paths e)"
  unfolding own_paths_def using cred_path_not_key own_names_slash_free by fastforce

lemma cred_path_in_own:
  "cred_path e ''passhash'' \<in> set (own_paths e)" "cred_path e ''upass.enc'' \<in> set (own_paths e)"
  "cred_path e ''last_uni'' \<in> set (own_paths e)" "cred_path e ''passhash'' @ ''.tmp'' \<in> set (own_paths e)"
  "cred_path e ''upass.enc'' @ ''.tmp'' \<in> set (own_paths e)" "cred_path e ''last_uni'' @ ''.tmp'' \<in> set (own_paths e)"
  by (simp_all add: own_paths_def own_names_def cred_path_tmp)

subsection \<open>Effects of the operations\<close>

lemma files_cooldown:
  "q \<noteq> cred_path e ''last_uni'' \<Longrightarrow> q \<noteq> cred_path e ''last_uni'' @ ''.tmp'' \<Longrightarrow>
   files (snd (cooldown_ok cd now e w)) q = files w q"
  by (auto simp: cooldown_ok_def Let_def files_write_atomic)

lemma verify_uni_frame [simp]:
  "files (snd (verify_uni conn now e p w)) = files w" "dirs (snd (verify_uni conn now e p w)) = dirs w"
  by (simp_all add: verify_uni_def Let_def split: option.splits)

lemma files_enroll:
  "q \<notin> set (own_paths e) \<Longrightarrow> files (snd (enroll cr e p w)) q = files w q"
  using cred_path_in_own [of e]
  by (auto simp: enroll_def Let_def files_write_atomic split: sum.splits)

lemma files_vouch:
  assumes "q \<notin> set (own_paths e)"
  shows "files (snd (vouch cr cd conn now e p w)) q = files w q"
proof -
  have q: "q \<noteq> cred_path e ''last_uni''" "q \<noteq> cred_path e ''last_uni'' @ ''.tmp''"
    using assms cred_path_in_own [of e] by auto
  obtain b w1 where c: "cooldown_ok cd now e w = (b, w1)" by fastforce
  obtain r w2 where v: "verify_uni conn now e p w1 = (r, w2)" by fastforce
  obtain r' w3 where n: "enroll cr e p w2 = (r', w3)" by fastforce
  have "files w1 q = files w q" using files_cooldown [OF q, of cd now w] c by simp
  moreover have "files w2 = files w1" using verify_uni_frame(1) [of conn now e p w1] v by simp
  moreover have "files w3 q = files w2 q" using files_enroll [OF assms, of cr p w2] n by simp
  ultimately show ?thesis
    by (simp add: vouch_def c v n split: bool.splits sum.splits)
qed

lemma files_authenticate:
  "q \<notin> set (own_paths e) \<Longrightarrow> files (snd (authenticate cr cd conn now e p w)) q = files w q"
  by (simp add: authenticate_def files_vouch)


lemma read_file_cong: "files w p = files v p \<Longrightarrow> read_file w p = read_file v p"
  by (simp add: read_file_def)

subsection \<open>Names\<close>

lemma normalize_strip_right: "normalize_user u = [] \<or> \<not> str_space (last (normalize_user u))"
proof -
  let ?s = "strip u"
  let ?u = "case find_elem (CHR 0x5C) ?s of Some j \<Rightarrow> drop (Suc j) ?s | None \<Rightarrow> ?s"
  have "?u = [] \<or> last ?u = last ?s"
    by (auto split: option.splits) (metis last_drop not_le)
  moreover have "?u \<noteq> [] \<Longrightarrow> ?s \<noteq> []" by auto
  moreover have "?s \<noteq> [] \<Longrightarrow> \<not> str_space (last ?s)"
    unfolding strip_def by (rule strip_by_last)
  ultimately show ?thesis
    unfolding normalize_user_def Let_def by (auto simp: last_lower)
qed

lemma normalize_lower [simp]: "lower (normalize_user u) = normalize_user u"
  by (simp add: normalize_user_def Let_def)

lemma normalize_upstream_user:
  assumes "e = [] \<or> \<not> str_space (last e)"
  shows "normalize_user (upstream_user e) = lower e"
proof -
  have "strip (upstream_user e) = upstream_user e"
    unfolding strip_def using assms
    by (intro strip_by_id) (auto simp: upstream_user_def str_space_def)
  moreover have "find_elem (CHR 0x5C) (upstream_user e) = Some 6"
    using find_elem_append [of "CHR 0x5C" "''bzedvz''" e] by (simp add: upstream_user_def)
  ultimately show ?thesis
    by (simp add: normalize_user_def upstream_user_def)
qed

text \<open>
  The form of a user name sent to the university denotes the same local identity: whatever a
  client typed, normalising the university form of the normalised name changes nothing.
\<close>

theorem normalize_upstream: "normalize_user (upstream_user (normalize_user u)) = normalize_user u"
  using normalize_strip_right by (simp add: normalize_upstream_user)

subsection \<open>Who gets in\<close>

definition uni_accepts :: "uni_conn \<Rightarrow> string \<Rightarrow> string \<Rightarrow> bool" where
  "uni_accepts conn e p \<longleftrightarrow>
     c_connect conn = None \<and> c_login conn (upstream_user e) p = None \<and> c_logout conn = None"

lemma verify_uni_True: "fst (verify_uni conn now e p w) = Inr True \<longleftrightarrow> uni_accepts conn e p"
  by (auto simp: verify_uni_def uni_accepts_def Let_def split: option.splits)

lemma vouch_True: "fst (vouch cr cd conn now e p w) = Inr True \<Longrightarrow> uni_accepts conn e p"
proof -
  obtain b w1 where c: "cooldown_ok cd now e w = (b, w1)" by fastforce
  obtain r w2 where v: "verify_uni conn now e p w1 = (r, w2)" by fastforce
  assume "fst (vouch cr cd conn now e p w) = Inr True"
  then have "r = Inr True" by (auto simp: vouch_def c v split: bool.splits sum.splits)
  then show ?thesis using verify_uni_True [of conn now e p w1] v by simp
qed

text \<open>
  Nobody is let in unless the password matches the stored hash, or the university accepted
  exactly this user and password in this login.
\<close>

theorem authenticate_sound:
  "fst (authenticate cr cd conn now e p w) = Inr True \<Longrightarrow>
   verify_local cr w e p \<or> uni_accepts conn e p"
  by (auto simp: authenticate_def dest: vouch_True split: if_splits)


subsection \<open>After an accepted login\<close>

lemma encrypt_after_passhash:
  assumes "plain_user e"
  shows "encrypt_secret cr (write_atomic (cred_path e ''passhash'') c (makedirs d w)) p = encrypt_secret cr w p"
proof -
  have "MASTER_KEY_FILE \<noteq> cred_path e ''passhash''" "MASTER_KEY_FILE \<noteq> cred_path e ''passhash'' @ ''.tmp''"
    using own_paths_not_key [OF assms] cred_path_in_own [of e] by metis+
  then show ?thesis by (simp add: encrypt_secret_def read_file_def files_write_atomic)
qed

lemma files_enroll_ok:
  assumes "plain_user e" "fst (enroll cr e p w) = Inr ()" "w' = snd (enroll cr e p w)"
  shows "read_file w' (cred_path e ''passhash'') = Some (Bytes (crypt cr p (mksalt cr)))"
    and "\<exists>tok. encrypt_secret cr w p = Inr tok \<and> read_file w' (cred_path e ''upass.enc'') = Some (Bytes tok)"
    and "read_file w' MASTER_KEY_FILE = read_file w MASTER_KEY_FILE"
proof -
  have ne: "cred_path e ''passhash'' \<noteq> cred_path e ''upass.enc''"
    "cred_path e ''passhash'' \<noteq> cred_path e ''upass.enc'' @ ''.tmp''"
    using assms(1) by (simp_all add: path_simps)
  show "read_file w' (cred_path e ''passhash'') = Some (Bytes (crypt cr p (mksalt cr)))"
    "\<exists>tok. encrypt_secret cr w p = Inr tok \<and> read_file w' (cred_path e ''upass.enc'') = Some (Bytes tok)"
    using assms(2,3) ne
    by (auto simp: enroll_def Let_def encrypt_after_passhash [OF assms(1)] read_file_def files_write_atomic
        split: sum.splits)
  show "read_file w' MASTER_KEY_FILE = read_file w MASTER_KEY_FILE"
    unfolding assms(3) by (intro read_file_cong files_enroll own_paths_not_key assms(1))
qed

text \<open>A vouched login ends in an enrollment.\<close>

lemma vouch_True_enrolled:
  assumes "fst (vouch cr cd conn now e p w) = Inr True"
  obtains w2 where "snd (vouch cr cd conn now e p w) = snd (enroll cr e p w2)" "fst (enroll cr e p w2) = Inr ()"
proof -
  obtain b w1 where c: "cooldown_ok cd now e w = (b, w1)" by fastforce
  obtain r w2 where v: "verify_uni conn now e p w1 = (r, w2)" by fastforce
  obtain r' w3 where n: "enroll cr e p w2 = (r', w3)" by fastforce
  have "vouch cr cd conn now e p w = (Inr True, w3)" "r' = Inr ()"
    using assms by (auto simp: vouch_def c v n split: bool.splits sum.splits)
  then show ?thesis using that [of w2] n by auto
qed

text \<open>
  Once the university has vouched for a user, the box can do without it: the stored secret
  decrypts to the password, and the next login with it succeeds without any contact and
  without any change of state, whatever the connection does.
\<close>

theorem enrolled_login_is_offline:
  assumes "crypto_ok cr" "plain_user e"
    and "fst (authenticate cr cd conn now e p w) = Inr True" "\<not> verify_local cr w e p"
    and "w' = snd (authenticate cr cd conn now e p w)"
  shows "authenticate cr cd' conn' now' e p w' = (Inr True, w') \<and>
    (\<exists>tok. read_file w' (cred_path e ''upass.enc'') = Some (Bytes tok) \<and> decrypt_secret cr w' tok = Inr p)"
proof -
  from assms(3-5) have "fst (vouch cr cd conn now e p w) = Inr True" and "w' = snd (vouch cr cd conn now e p w)"
    by (auto simp: authenticate_def split: if_splits)
  then obtain w2 where "w' = snd (enroll cr e p w2)" "fst (enroll cr e p w2) = Inr ()"
    by (auto elim: vouch_True_enrolled)
  note en = files_enroll_ok [OF assms(2) this(2,1)]
  have "verify_local cr w' e p" "is_enrolled w' e"
    using assms(1) en(1) by (auto simp: verify_local_def crypto_ok_def is_enrolled_def is_file_def read_file_def)
  moreover have "encrypt_secret cr w2 p = Inr tok \<Longrightarrow> decrypt_secret cr w' tok = Inr p" for tok
    using en(3) assms(1)
    by (auto simp: encrypt_secret_def decrypt_secret_def crypto_ok_def split: option.splits)
  ultimately show ?thesis using en(2) by (auto simp: authenticate_def)
qed

text \<open>A concrete box: the toy hash is the password after a marker, the toy token the text after the key.\<close>

definition toy_crypto :: crypto where
  "toy_crypto = \<lparr>crypt = (\<lambda>p s. ''$'' @ p @ ''$''), mksalt = [],
     fernet_enc = (\<lambda>k s. s), fernet_dec = (\<lambda>k t. Some t)\<rparr>"

definition accepting :: uni_conn where
  "accepting = \<lparr>c_connect = None, c_login = (\<lambda>u p. None), c_logout = None\<rparr>"

definition rejecting :: uni_conn where
  "rejecting = \<lparr>c_connect = None, c_login = (\<lambda>u p. Some ImapError), c_logout = None\<rparr>"

definition unreachable :: uni_conn where
  "unreachable = \<lparr>c_connect = Some OSError, c_login = (\<lambda>u p. None), c_logout = None\<rparr>"

definition fresh_box :: world where
  "fresh_box = \<lparr>files = [MASTER_KEY_FILE \<mapsto> (Bytes ''k'', 384)], dirs = [], uni_log = [],
     handed_over = (\<lambda>_. False), may_chown = True\<rparr>"

lemmas eval_auth = authenticate_def vouch_def cooldown_ok_def verify_uni_def enroll_def is_enrolled_def
  is_file_def verify_local_def encrypt_secret_def decrypt_secret_def read_file_def makedirs_def
  files_write_atomic Let_def cred_path_def creds_dir_def path_join_def CREDS_ROOT_def MASTER_KEY_FILE_def
  fresh_box_def accepting_def rejecting_def unreachable_def

lemma toy_crypto_ok: "crypto_ok toy_crypto"
  by (simp add: crypto_ok_def toy_crypto_def strip_def strip_by_id str_space_def)

theorem enrolled_login_is_offline_witness:
  "authenticate toy_crypto 5 unreachable 200 ''a@b'' ''pw''
     (snd (authenticate toy_crypto 5 accepting 100 ''a@b'' ''pw'' fresh_box))
   = (Inr True, snd (authenticate toy_crypto 5 accepting 100 ''a@b'' ''pw'' fresh_box))"
proof -
  have "plain_user ''a@b''" by (simp add: plain_user_def slash_free_def)
  moreover have "fst (authenticate toy_crypto 5 accepting 100 ''a@b'' ''pw'' fresh_box) = Inr True"
    "\<not> verify_local toy_crypto fresh_box ''a@b'' ''pw''"
    by (simp_all add: eval_auth)
  ultimately show ?thesis
    using enrolled_login_is_offline [OF toy_crypto_ok _ _ _ refl] by blast
qed

theorem authenticate_sound_witness:
  "verify_local toy_crypto fresh_box ''a@b'' ''pw'' \<or> uni_accepts accepting ''a@b'' ''pw''"
  by (rule authenticate_sound [where cd = 5 and now = 100]) (simp add: eval_auth)

subsection \<open>A refused login\<close>

lemma vouch_False_files:
  assumes "fst (vouch cr cd conn now e p w) \<in> {Inr False, Inl (SystemExit 111)}"
    and "q \<noteq> cred_path e ''last_uni''" "q \<noteq> cred_path e ''last_uni'' @ ''.tmp''"
  shows "files (snd (vouch cr cd conn now e p w)) q = files w q"
proof -
  obtain b w1 where c: "cooldown_ok cd now e w = (b, w1)" by fastforce
  obtain r w2 where v: "verify_uni conn now e p w1 = (r, w2)" by fastforce
  obtain r' w3 where n: "enroll cr e p w2 = (r', w3)" by fastforce
  have "r' \<noteq> Inl (SystemExit 111)"
    using n by (auto simp: enroll_def encrypt_secret_def Let_def split: sum.splits option.splits)
  then have "snd (vouch cr cd conn now e p w) \<in> {w1, w2}"
    using assms(1) by (auto simp: vouch_def c v n split: bool.splits sum.splits)
  moreover have "files w1 q = files w q" using files_cooldown [OF assms(2,3), of cd now w] c by simp
  moreover have "files w2 = files w1" using verify_uni_frame(1) [of conn now e p w1] v by simp
  ultimately show ?thesis by auto
qed

text \<open>
  A login that is refused, or that could not be checked because the university was
  unreachable, leaves every file as it was, the stored hash and secret included, except the
  user's own cooldown marker.
\<close>

theorem refused_login_keeps_files:
  "fst (authenticate cr cd conn now e p w) \<in> {Inr False, Inl (SystemExit 111)} \<Longrightarrow>
   q \<noteq> cred_path e ''last_uni'' \<Longrightarrow> q \<noteq> cred_path e ''last_uni'' @ ''.tmp'' \<Longrightarrow>
   files (snd (authenticate cr cd conn now e p w)) q = files w q"
  by (auto simp: authenticate_def intro!: vouch_False_files split: if_splits)

theorem refused_login_keeps_files_witness:
  "files (snd (authenticate toy_crypto 5 rejecting 100 ''a@b'' ''pw'' fresh_box)) MASTER_KEY_FILE
     = files fresh_box MASTER_KEY_FILE"
  by (rule refused_login_keeps_files) (simp_all add: eval_auth)

text \<open>
  Serving one user never touches another: an authentication changes only files in the
  user's own credential directory, so the credentials of every other user and the master key
  stay as they are.
\<close>

theorem authenticate_isolation:
  assumes "plain_user e" "plain_user f" "e \<noteq> f" "slash_free n"
  shows "files (snd (authenticate cr cd conn now e p w)) (cred_path f n) = files w (cred_path f n) \<and>
    files (snd (authenticate cr cd conn now e p w)) MASTER_KEY_FILE = files w MASTER_KEY_FILE"
  using assms by (simp add: files_authenticate own_paths_other own_paths_not_key)

theorem authenticate_isolation_witness:
  "files (snd (authenticate toy_crypto 5 accepting 100 ''a@b'' ''pw'' fresh_box)) (cred_path ''c@d'' ''passhash'')
     = files fresh_box (cred_path ''c@d'' ''passhash'')"
  using authenticate_isolation [of "''a@b''" "''c@d''" "''passhash''" toy_crypto 5 accepting 100 "''pw''" fresh_box]
  by (simp add: plain_user_def slash_free_def)

subsection \<open>De-enrollment\<close>

lemma files_deauth:
  "files (deauth e w) q =
    (if q \<in> {cred_path e ''passhash'', cred_path e ''upass.enc'', cred_path e ''last_uni''} then None else files w q)"
  unfolding deauth_def fs.get_remove_all by simp

lemma deauth_frame [simp]: "dirs (deauth e w) = dirs w" "uni_log (deauth e w) = uni_log w"
  by (simp_all add: deauth_def)

text \<open>
  De-enrolling a user closes the fast local path: no password passes the local check any
  more, so the next login is decided by the university alone, and since the cooldown marker is
  gone too it may be asked at any time at least one cooldown after the epoch.
\<close>

theorem deauth_forces_university:
  assumes "w' = deauth e w" "cd \<le> now"
  shows "\<not> is_enrolled w' e \<and> \<not> verify_local cr w' e p \<and>
    (fst (authenticate cr cd conn now e p w') = Inr True \<longrightarrow> uni_accepts conn e p) \<and>
    fst (cooldown_ok cd now e w')"
proof -
  have "read_file w' (cred_path e ''passhash'') = None" "read_file w' (cred_path e ''last_uni'') = None"
    by (simp_all add: assms(1) read_file_def files_deauth)
  moreover from this have "\<not> verify_local cr w' e p" by (simp add: verify_local_def)
  moreover from calculation have "\<not> is_enrolled w' e"
    by (simp add: is_enrolled_def is_file_def read_file_def)
  moreover have "read_file (makedirs (creds_dir e) w') = read_file w'"
    by (rule ext) (simp add: read_file_def)
  ultimately show ?thesis
    using assms(2) by (auto simp: authenticate_def cooldown_ok_def Let_def dest: vouch_True)
qed

theorem deauth_forces_university_witness:
  "\<not> is_enrolled (deauth ''a@b'' (snd (authenticate toy_crypto 5 accepting 100 ''a@b'' ''pw'' fresh_box))) ''a@b''"
  using deauth_forces_university [OF refl, of 5 100 "''a@b''" _ toy_crypto "''pw''" accepting] by simp

subsection \<open>The rate limit\<close>

text \<open>
  A state with a marker of the last admitted attempt and a log.  A step either leaves both, or
  is at least \<open>gap\<close> after the marker, moves the marker to its own time, and may log that time.
\<close>

locale rate_limiter =
  fixes step :: "'i \<Rightarrow> 's \<Rightarrow> 's" and time_of :: "'i \<Rightarrow> rat" and ok :: "'i \<Rightarrow> bool"
    and marker :: "'s \<Rightarrow> rat option" and log :: "'s \<Rightarrow> rat list" and gap :: rat
  assumes step_law: "ok i \<Longrightarrow> 0 \<le> gap \<and>
      ((marker (step i s) = marker s \<and> log (step i s) = log s) \<or>
       ((\<forall>l. marker s = Some l \<longrightarrow> gap \<le> time_of i - l) \<and> marker (step i s) = Some (time_of i)
         \<and> log (step i s) \<in> {log s, log s @ [time_of i]}))"
begin

definition spaced :: "rat list \<Rightarrow> bool" where
  "spaced ts \<longleftrightarrow> sorted_wrt (\<lambda>a b. gap \<le> b - a) ts"

definition covered :: "'s \<Rightarrow> bool" where
  "covered s \<longleftrightarrow> (\<forall>t\<in>set (log s). \<exists>l. marker s = Some l \<and> t \<le> l)"

lemma step_spaced:
  assumes "ok i" "spaced (log s)" "covered s"
  shows "spaced (log (step i s)) \<and> covered (step i s)"
proof -
  have *: "gap \<le> time_of i - t \<and> t \<le> time_of i" if "t \<in> set (log s)" "\<forall>l. marker s = Some l \<longrightarrow> gap \<le> time_of i - l" "0 \<le> gap" for t
    using assms(3) that by (force simp: covered_def)
  from step_law [OF assms(1), of s] show ?thesis
    using assms(2,3) * by (auto simp: spaced_def covered_def sorted_wrt_append)
qed

lemma run_spaced:
  "(\<And>i. i \<in> set is \<Longrightarrow> ok i) \<Longrightarrow> spaced (log s) \<Longrightarrow> covered s \<Longrightarrow>
   spaced (log (fold step is s)) \<and> covered (fold step is s)"
proof (induction "is" arbitrary: s)
  case (Cons i "is")
  then show ?case using step_spaced [of i s] by simp
qed simp

end

text \<open>One login attempt, and the contacts made for one user.\<close>

record login_attempt =
  la_email :: string
  la_password :: string
  la_conn :: uni_conn
  la_time :: rat

definition login_step :: "crypto \<Rightarrow> rat \<Rightarrow> login_attempt \<Rightarrow> world \<Rightarrow> world" where
  "login_step cr cd a w = snd (authenticate cr cd (la_conn a) (la_time a) (la_email a) (la_password a) w)"

definition contacts :: "string \<Rightarrow> world \<Rightarrow> rat list" where
  "contacts u w = map snd (filter (\<lambda>x. fst x = upstream_user u) (uni_log w))"

definition cool_marker :: "string \<Rightarrow> world \<Rightarrow> rat option" where
  "cool_marker u w = Option.bind (read_file w (cred_path u ''last_uni'')) float_of"

lemma cool_marker_cong: "files w (cred_path u ''last_uni'') = files v (cred_path u ''last_uni'') \<Longrightarrow> cool_marker u w = cool_marker u v"
  by (simp add: cool_marker_def read_file_def)

lemma upstream_user_inject [simp]: "upstream_user a = upstream_user b \<longleftrightarrow> a = b"
  by (simp add: upstream_user_def)

lemma uni_log_enroll [simp]: "uni_log (snd (enroll cr e p w)) = uni_log w"
  by (simp add: enroll_def Let_def split: sum.splits)

lemma verify_uni_log: "uni_log (snd (verify_uni conn now e p w)) \<in> {uni_log w, uni_log w @ [(upstream_user e, now)]}"
  by (simp add: verify_uni_def Let_def split: option.splits)

lemma cooldown_law:
  assumes "cooldown_ok cd now e w = (b, w1)"
  shows "uni_log w1 = uni_log w \<and>
    (if b then cool_marker e w1 = Some now \<and> (\<forall>l. cool_marker e w = Some l \<longrightarrow> cd \<le> now - l)
     else files w1 = files w)"
  using assms
  by (auto simp: cooldown_ok_def Let_def cool_marker_def read_file_def files_write_atomic split: if_splits option.splits)

lemma marker_enroll:
  assumes "plain_user e"
  shows "cool_marker e (snd (enroll cr e p w)) = cool_marker e w"
proof (rule cool_marker_cong)
  show "files (snd (enroll cr e p w)) (cred_path e ''last_uni'') = files w (cred_path e ''last_uni'')"
    using assms
    by (auto simp: enroll_def Let_def files_write_atomic path_simps split: sum.splits)
qed


lemma vouch_law:
  assumes "plain_user e"
  shows "(cool_marker e (snd (vouch cr cd conn now e p w)) = cool_marker e w \<and>
      uni_log (snd (vouch cr cd conn now e p w)) = uni_log w) \<or>
    ((\<forall>l. cool_marker e w = Some l \<longrightarrow> cd \<le> now - l) \<and>
      cool_marker e (snd (vouch cr cd conn now e p w)) = Some now \<and>
      uni_log (snd (vouch cr cd conn now e p w)) \<in> {uni_log w, uni_log w @ [(upstream_user e, now)]})"
proof -
  obtain b w1 where c: "cooldown_ok cd now e w = (b, w1)" by fastforce
  obtain r w2 where v: "verify_uni conn now e p w1 = (r, w2)" by fastforce
  obtain r' w3 where n: "enroll cr e p w2 = (r', w3)" by fastforce
  note cl = cooldown_law [OF c]
  have v2: "cool_marker e w2 = cool_marker e w1" "uni_log w2 \<in> {uni_log w1, uni_log w1 @ [(upstream_user e, now)]}"
    using verify_uni_frame(1) [of conn now e p w1] verify_uni_log [of conn now e p w1] v
    by (auto intro: cool_marker_cong)
  have n2: "cool_marker e w3 = cool_marker e w2" "uni_log w3 = uni_log w2"
    using marker_enroll [OF assms, of cr p w2] uni_log_enroll [of cr e p w2] n by simp_all
  show ?thesis
  proof (cases b)
    case True
    then have "snd (vouch cr cd conn now e p w) \<in> {w2, w3}"
      by (auto simp: vouch_def c v n split: bool.splits sum.splits)
    then show ?thesis using True cl v2 n2 by auto
  next
    case False
    then have "snd (vouch cr cd conn now e p w) = w1" by (simp add: vouch_def c)
    then show ?thesis using False cl by (auto intro: cool_marker_cong)
  qed
qed

lemma login_step_law:
  assumes "plain_user u" "plain_user (la_email a)"
  shows "(cool_marker u (login_step cr cd a w) = cool_marker u w \<and> contacts u (login_step cr cd a w) = contacts u w) \<or>
    ((\<forall>l. cool_marker u w = Some l \<longrightarrow> cd \<le> la_time a - l) \<and> cool_marker u (login_step cr cd a w) = Some (la_time a) \<and>
      contacts u (login_step cr cd a w) \<in> {contacts u w, contacts u w @ [la_time a]})"
proof (cases "login_step cr cd a w = w")
  case False
  then have st: "login_step cr cd a w = snd (vouch cr cd (la_conn a) (la_time a) (la_email a) (la_password a) w)"
    by (auto simp: login_step_def authenticate_def split: if_splits)
  note law = vouch_law [OF assms(2), of cr cd "la_conn a" "la_time a" "la_password a" w, folded st]
  show ?thesis
  proof (cases "la_email a = u")
    case True
    with law show ?thesis by (auto simp: contacts_def)
  next
    case False
    then have "cool_marker u (login_step cr cd a w) = cool_marker u w"
      unfolding st by (intro cool_marker_cong files_vouch own_paths_other assms slash_free_names)
    moreover have "contacts u (login_step cr cd a w) = contacts u w"
      using law False by (auto simp: contacts_def)
    ultimately show ?thesis by simp
  qed
qed simp

interpretation cool: rate_limiter "login_step cr cd" la_time
  "\<lambda>a. plain_user u \<and> plain_user (la_email a) \<and> 0 \<le> cd" "cool_marker u" "contacts u" cd
  for cr cd u
  by unfold_locales (use login_step_law in auto)

text \<open>
  C6.  However many logins arrive, with whatever passwords, clock and answers, the box contacts
  the university for one user at most once per cooldown: any two contacts in the trace of a
  run from a box that made none yet are at least \<open>UNI_COOLDOWN\<close> apart.
\<close>

theorem university_rate_limit:
  assumes "plain_user u" "\<forall>a\<in>set as. plain_user (la_email a)" "0 \<le> cd" "contacts u w = []"
  shows "sorted_wrt (\<lambda>s t. cd \<le> t - s) (contacts u (fold (login_step cr cd) as w))"
  using cool.run_spaced [of as u cd w cr] assms
  by (simp add: cool.spaced_def cool.covered_def)

definition attempt_at :: "rat \<Rightarrow> login_attempt" where
  "attempt_at t = \<lparr>la_email = ''a@b'', la_password = ''pw'', la_conn = rejecting, la_time = t\<rparr>"

lemma contacts_example:
  "contacts ''a@b'' (fold (login_step toy_crypto 5) (map attempt_at [100, 103, 106]) fresh_box) = [100, 106]"
  by (simp add: attempt_at_def login_step_def eval_auth contacts_def upstream_user_def)

theorem university_rate_limit_witness:
  "sorted_wrt (\<lambda>s t. (5::rat) \<le> t - s)
     (contacts ''a@b'' (fold (login_step toy_crypto 5) (map attempt_at [100, 103, 106]) fresh_box))"
  by (rule university_rate_limit)
    (simp_all add: plain_user_def slash_free_def attempt_at_def contacts_def fresh_box_def)

subsection \<open>Exit statuses\<close>

text \<open>
  Dovecot is told to hand the session over only for a user whose login succeeded, whose
  canonical name holds an at sign, and the session runs with exactly that name as its user
  and the home directory below \<open>/mail\<close>; a password is never empty.
\<close>

theorem main_hands_over_only_authenticated:
  assumes "fst (main cr cd conn now dec (Some raw) argv1 w) = Exec reply user home"
  shows "\<exists>u p. user = normalize_user u \<and> home = ''/mail/'' @ user \<and> CHR ''@'' \<in> set user \<and> p \<noteq> [] \<and>
    (verify_local cr w user p \<or> uni_accepts conn user p)"
proof -
  obtain u p where main: "main cr cd conn now dec (Some raw) argv1 w =
      (if p = [] \<or> CHR ''@'' \<notin> set (normalize_user u) then (Exit 1, w)
       else (case authenticate cr cd conn now (normalize_user u) p w of
               (Inl e, w1) \<Rightarrow> (exit_of e, w1)
             | (Inr False, w1) \<Rightarrow> (Exit 1, w1)
             | (Inr True, w1) \<Rightarrow> (case argv1 of None \<Rightarrow> (Exit 0, w1)
                 | Some r \<Rightarrow> if r = [] then (Exit 0, w1)
                            else (Exec r (normalize_user u) (''/mail/'' @ normalize_user u), w1))))"
    by (simp add: main_def Let_def)
  obtain r w1 where a: "authenticate cr cd conn now (normalize_user u) p w = (r, w1)" by fastforce
  have "exit_of x \<noteq> Exec reply user home" for x by (cases x) auto
  with assms main a have "r = Inr True" "user = normalize_user u" "home = ''/mail/'' @ user"
      "CHR ''@'' \<in> set user" "p \<noteq> []"
    by (auto split: if_splits sum.splits bool.splits option.splits)
  moreover from this have "verify_local cr w user p \<or> uni_accepts conn user p"
    using authenticate_sound [of cr cd conn now "normalize_user u" p w] a by simp
  ultimately show ?thesis by blast
qed

definition login_bytes :: string where
  "login_bytes = ''A@b'' @ [char_of (0::nat)] @ ''pw'' @ [char_of (0::nat)]"

lemma main_example:
  "main toy_crypto 5 conn 100 id (Some login_bytes) (Some ''/reply'') fresh_box =
    (case authenticate toy_crypto 5 conn 100 ''a@b'' ''pw'' fresh_box of
       (Inl x, w1) \<Rightarrow> (exit_of x, w1)
     | (Inr False, w1) \<Rightarrow> (Exit 1, w1)
     | (Inr True, w1) \<Rightarrow> (Exec ''/reply'' ''a@b'' ''/mail/a@b'', w1))"
proof -
  have "normalize_user ''A@b'' = ''a@b''"
    by (simp add: normalize_user_def strip_def strip_by_def str_space_def lower_def lower_char_def char_of_def bit_Suc_0_iff)
  then show ?thesis by (simp add: main_def login_bytes_def char_of_def Let_def split: prod.split sum.split bool.split)
qed

theorem main_hands_over_only_authenticated_witness:
  "\<exists>u p. ''a@b'' = normalize_user u \<and> ''/mail/a@b'' = ''/mail/'' @ ''a@b'' \<and> CHR ''@'' \<in> set ''a@b'' \<and> p \<noteq> [] \<and>
    (verify_local toy_crypto fresh_box ''a@b'' p \<or> uni_accepts accepting ''a@b'' p)"
proof -
  have "fst (main toy_crypto 5 accepting 100 id (Some login_bytes) (Some ''/reply'') fresh_box)
      = Exec ''/reply'' ''a@b'' ''/mail/a@b''"
    unfolding main_example by (simp add: eval_auth)
  then show ?thesis by (rule main_hands_over_only_authenticated)
qed

text \<open>
  A university that cannot be reached is reported to Dovecot as a temporary failure
  (status 111), never as a wrong password, and nothing is stored but the cooldown marker.
\<close>

theorem unreachable_is_temporary:
  assumes "c_connect conn = Some x" "is_exception x"
    and "\<not> verify_local cr w e p" "fst (cooldown_ok cd now e w)"
  shows "authenticate cr cd conn now e p w = (Inl (SystemExit 111), snd (cooldown_ok cd now e w))"
  using assms
  by (cases "cooldown_ok cd now e w") (simp add: authenticate_def vouch_def verify_uni_def)

theorem unreachable_is_temporary_witness:
  "fst (authenticate toy_crypto 5 unreachable 100 ''a@b'' ''pw'' fresh_box) = Inl (SystemExit 111)"
proof -
  have "c_connect unreachable = Some OSError" by (simp add: unreachable_def)
  then show ?thesis
    using unreachable_is_temporary [of unreachable OSError toy_crypto fresh_box "''a@b''" "''pw''" 5 100]
    by (simp add: eval_auth)
qed

text \<open>
  A connection that is lost during the login is reported as a wrong password: the backend
  catches \<open>IMAP4.error\<close>, of which \<open>IMAP4.abort\<close> is a subclass, so \<open>main\<close> exits with 1 and not
  with 111; and a LOGOUT that fails after an accepted login refuses the user.
\<close>

theorem lost_connection_is_rejection:
  "fst (main toy_crypto 5 (accepting\<lparr>c_login := (\<lambda>u p. Some ImapAbort)\<rparr>) 100 id (Some login_bytes)
      (Some ''/reply'') fresh_box) = Exit 1 \<and>
   fst (main toy_crypto 5 (accepting\<lparr>c_logout := Some ImapAbort\<rparr>) 100 id (Some login_bytes)
      (Some ''/reply'') fresh_box) = Exit 1"
  unfolding main_example by (simp add: eval_auth)

text \<open>
  An enrollment that cannot read the master key leaves the user half enrolled for good: the
  hash is stored before the secret is encrypted, so the first login fails with an uncaught
  exception, and every later login with that password succeeds locally although there is no
  stored secret to sync or send with.
\<close>

theorem half_enrolled_without_master_key:
  assumes "crypto_ok cr" "plain_user e" "read_file w MASTER_KEY_FILE = None"
    and "\<not> is_enrolled w e" "read_file w (cred_path e ''upass.enc'') = None"
    and "fst (cooldown_ok cd now e w)" "uni_accepts conn e p"
    and "w' = snd (authenticate cr cd conn now e p w)"
  shows "fst (authenticate cr cd conn now e p w) = Inl FileNotFoundError \<and>
    authenticate cr cd conn' now' e p w' = (Inr True, w') \<and>
    read_file w' (cred_path e ''upass.enc'') = None"
proof -
  obtain w1 where c: "cooldown_ok cd now e w = (True, w1)"
    using assms(6) by (cases "cooldown_ok cd now e w") auto
  obtain w2 where v: "verify_uni conn now e p w1 = (Inr True, w2)"
    using assms(7) verify_uni_True [of conn now e p w1] by (cases "verify_uni conn now e p w1") auto
  have f1: "files w1 q = files w q" if "q \<noteq> cred_path e ''last_uni''" "q \<noteq> cred_path e ''last_uni'' @ ''.tmp''" for q
    using files_cooldown [OF that, of cd now w] c by simp
  have f2: "files w2 = files w1"
    using verify_uni_frame(1) [of conn now e p w1] v by simp
  have key: "MASTER_KEY_FILE \<noteq> cred_path e n" if "slash_free n" for n
    using cred_path_not_key [OF assms(2) that] by metis
  have "files w2 MASTER_KEY_FILE = files w MASTER_KEY_FILE"
    unfolding f2 by (intro f1) (simp_all add: key path_simps)
  then have enc: "encrypt_secret cr w2 p = Inl FileNotFoundError"
    using assms(3) by (simp add: encrypt_secret_def read_file_def)
  have u2: "files w2 (cred_path e ''upass.enc'') = None"
    using assms(5) f1 [of "cred_path e ''upass.enc''"] assms(2) by (simp add: f2 path_simps read_file_def)
  let ?w3 = "write_atomic (cred_path e ''passhash'') (Bytes (crypt cr p (mksalt cr))) (makedirs (creds_dir e) w2)"
  have "enroll cr e p w2 = (Inl FileNotFoundError, ?w3)"
    using enc by (simp add: enroll_def Let_def encrypt_after_passhash [OF assms(2)])
  then have a: "authenticate cr cd conn now e p w = (Inl FileNotFoundError, ?w3)"
    using assms(4) by (simp add: authenticate_def vouch_def c v)
  have "read_file w' (cred_path e ''passhash'') = Some (Bytes (crypt cr p (mksalt cr)))"
    using a assms(8) by simp
  then have "verify_local cr w' e p" "is_enrolled w' e"
    using assms(1) by (auto simp: verify_local_def crypto_ok_def is_enrolled_def is_file_def read_file_def)
  moreover have "read_file w' (cred_path e ''upass.enc'') = None"
    using a assms(2,8) u2 by (simp add: read_file_def files_write_atomic path_simps)
  ultimately show ?thesis using a by (simp add: authenticate_def)
qed

definition keyless_box :: world where
  "keyless_box = \<lparr>files = Map.empty, dirs = [], uni_log = [], handed_over = (\<lambda>_. False), may_chown = True\<rparr>"

theorem half_enrolled_without_master_key_witness:
  "authenticate toy_crypto 5 unreachable 200 ''a@b'' ''pw''
     (snd (authenticate toy_crypto 5 accepting 100 ''a@b'' ''pw'' keyless_box))
   = (Inr True, snd (authenticate toy_crypto 5 accepting 100 ''a@b'' ''pw'' keyless_box))"
proof -
  have "plain_user ''a@b''" by (simp add: plain_user_def slash_free_def)
  moreover have "read_file keyless_box q = None" for q by (simp add: keyless_box_def read_file_def)
  moreover from this have "\<not> is_enrolled keyless_box ''a@b''" "fst (cooldown_ok 5 100 ''a@b'' keyless_box)"
    by (simp_all add: keyless_box_def is_enrolled_def is_file_def cooldown_ok_def Let_def read_file_def)
  moreover have "uni_accepts accepting ''a@b'' ''pw''" by (simp add: uni_accepts_def accepting_def)
  ultimately show ?thesis
    using half_enrolled_without_master_key [OF toy_crypto_ok _ _ _ _ _ _ refl] by blast
qed

text \<open>
  A name that starts with a slash is its own credential directory, outside the credential
  root, and the directory and the marker in it are made before the password is checked: any
  client that can reach the login can create a directory and a file at a path of its choice.
\<close>

theorem absolute_name_escapes_root:
  assumes "prefix ''/'' e" "e \<noteq> ''/''" "\<not> is_enrolled w e" "cd \<le> now" "read_file w (cred_path e ''last_uni'') = None"
  shows "creds_dir e = e \<and> e \<in> set (dirs (snd (authenticate cr cd rejecting now e p w))) \<and>
    read_file (snd (authenticate cr cd rejecting now e p w)) (cred_path e ''last_uni'') = Some (FloatText now)"
proof -
  have d: "creds_dir e = e" using assms(1) by (simp add: creds_dir_def path_join_def)
  have m: "p \<in> set (fold make_dir ps ds)" if "p \<in> set ps \<or> p \<in> set ds" for p ps ds
    using that by (induction ps arbitrary: ds) (auto simp: make_dir_def)
  have "e \<in> set (dirs (makedirs e w))"
    unfolding makedirs_def using m [of e "ancestors e" "dirs w"] by (simp add: ancestors_def)
  moreover have "read_file (makedirs e w) = read_file w" by (rule ext) (simp add: read_file_def)
  ultimately show ?thesis
    using assms(3-5) d
    by (simp add: authenticate_def vouch_def cooldown_ok_def verify_uni_def rejecting_def Let_def read_file_def
        files_write_atomic)
qed

theorem absolute_name_escapes_root_witness:
  "creds_dir ''/etc/cron.d/x@y'' = ''/etc/cron.d/x@y'' \<and>
   ''/etc/cron.d/x@y'' \<in> set (dirs (snd (authenticate toy_crypto 5 rejecting 100 ''/etc/cron.d/x@y'' ''pw'' fresh_box)))"
  using absolute_name_escapes_root [of "''/etc/cron.d/x@y''" fresh_box 5 100 toy_crypto "''pw''"]
  by (simp add: is_enrolled_def is_file_def read_file_def fresh_box_def cred_path_def creds_dir_def path_join_def
      MASTER_KEY_FILE_def)

text \<open>
  C15.  Stored credentials are replaced atomically: wherever the machine stops during a write, the
  file at its final name is either what it was or the complete new content with mode 0600.
\<close>

theorem write_is_atomic:
  "files (run_ops (crash_ops n partial p c) w) p \<in> {files w p, Some (c, 384)} \<and>
   files (write_atomic p c w) p = Some (c, 384)"
  using crash_old_or_new [of n partial p c w] by (simp add: files_write_atomic)

subsection \<open>What the other scripts read\<close>

text \<open>
  \<open>sync.py\<close>, \<open>idle.py\<close>, \<open>special_use.py\<close> and \<open>relaysend.py\<close> open
  \<open>/mail/.creds/<email>/upass.enc\<close> by that literal path and decrypt what they read.
\<close>

definition upass_path :: "string \<Rightarrow> string" where
  "upass_path email = ''/mail/.creds/'' @ email @ ''/upass.enc''"

definition read_password :: "crypto \<Rightarrow> world \<Rightarrow> string \<Rightarrow> string result" where
  "read_password cr w email =
     (case read_file w (upass_path email) of
        None \<Rightarrow> Inl FileNotFoundError
      | Some c \<Rightarrow> decrypt_secret cr w (text_of c))"

lemma upass_path_plain: "plain_user e \<Longrightarrow> cred_path e ''upass.enc'' = upass_path e"
  by (simp add: cred_path_plain upass_path_def)

lemma read_password_deauth: "plain_user e \<Longrightarrow> read_password cr (deauth e w) e = Inl FileNotFoundError"
  by (simp add: read_password_def read_file_def files_deauth upass_path_plain [symmetric])

text \<open>A box with one enrolled user, for the examples.\<close>

definition enrolled_box :: world where
  "enrolled_box = fresh_box\<lparr>dirs := [''/mail/.creds/a@b''], files := (files fresh_box)(upass_path ''a@b'' \<mapsto> (Bytes ''pw'', 384))\<rparr>"

lemma normalize_ab: "normalize_user ''a@b'' = ''a@b''"
  by (simp add: normalize_user_def strip_def strip_by_def str_space_def lower_def lower_char_def)

lemma read_password_enrolled_box: "read_password toy_crypto enrolled_box ''a@b'' = Inr ''pw''"
  by (simp add: read_password_def enrolled_box_def fresh_box_def read_file_def decrypt_secret_def toy_crypto_def
      MASTER_KEY_FILE_def upass_path_def)

end
