(* ===== verification/Account.thy ===== *)
theory Account
  imports AuthCheck
begin

text \<open>
  What the credential store of \<open>mail/authcheck.py\<close> promises, as an abstract specification, and the
  proof that the files implement it.

  A \<open>user_account\<close> is what the box knows about one user: the password it holds, if any, and the time
  the university was last asked.  \<open>account_login\<close> and \<open>account_deauth\<close> are the two operations on
  it.  \<open>account_of\<close> reads the account off the files; \<open>creds_ok\<close> says that the hash and the
  encrypted secret of a user, which the code writes one after the other, belong to the same
  password.
\<close>

subsection \<open>The abstract account\<close>

record user_account =
  ac_secret :: "string option"
  ac_last :: rat

definition no_account :: user_account where
  "no_account = \<lparr>ac_secret = None, ac_last = 0\<rparr>"

text \<open>What the university answers, with the exceptions turned into the ones the caller sees.\<close>

definition uni_answer :: "uni_conn \<Rightarrow> string \<Rightarrow> string \<Rightarrow> bool result" where
  "uni_answer conn e p =
     (case c_connect conn of
        Some x \<Rightarrow> Inl (if is_exception x then SystemExit 111 else x)
      | None \<Rightarrow>
          (case (case c_login conn (upstream_user e) p of None \<Rightarrow> c_logout conn | Some x \<Rightarrow> Some x) of
             None \<Rightarrow> Inr True
           | Some x \<Rightarrow> if is_imap_error x then Inr False else Inl x))"

definition account_login :: "rat \<Rightarrow> uni_conn \<Rightarrow> rat \<Rightarrow> string \<Rightarrow> string \<Rightarrow> user_account \<Rightarrow> bool result \<times> user_account" where
  "account_login cd conn now e p a =
     (if ac_secret a = Some p then (Inr True, a)
      else if now - ac_last a < cd then (Inr False, a)
      else (uni_answer conn e p,
            a\<lparr>ac_last := now, ac_secret := (if uni_answer conn e p = Inr True then Some p else ac_secret a)\<rparr>))"

definition account_deauth :: "user_account \<Rightarrow> user_account" where
  "account_deauth a = no_account"

subsection \<open>The account a set of files stands for\<close>

text \<open>
  An ideal hash: apart from the laws of \<open>crypto_ok\<close>, no other password passes for the hashed one.
\<close>

definition ideal_crypto :: "crypto \<Rightarrow> bool" where
  "ideal_crypto cr \<longleftrightarrow> crypto_ok cr \<and>
     (\<forall>p q. crypt cr p (crypt cr q (mksalt cr)) = crypt cr q (mksalt cr) \<longrightarrow> p = q)"

definition hash_of :: "crypto \<Rightarrow> string \<Rightarrow> content" where
  "hash_of cr p = Bytes (crypt cr p (mksalt cr))"

definition stored_secret :: "crypto \<Rightarrow> world \<Rightarrow> string \<Rightarrow> string result" where
  "stored_secret cr w e =
     (case read_file w (cred_path e ''upass.enc'') of
        None \<Rightarrow> Inl FileNotFoundError
      | Some c \<Rightarrow> decrypt_secret cr w (text_of c))"

lemma stored_secret_read_password: "plain_user e \<Longrightarrow> stored_secret cr w e = read_password cr w e"
  by (simp add: stored_secret_def read_password_def upass_path_plain)

definition account_of :: "crypto \<Rightarrow> world \<Rightarrow> string \<Rightarrow> user_account" where
  "account_of cr w e =
     \<lparr>ac_secret = (case stored_secret cr w e of Inl _ \<Rightarrow> None | Inr p \<Rightarrow> Some p),
      ac_last = (case Option.bind (read_file w (cred_path e ''last_uni'')) float_of of None \<Rightarrow> 0 | Some t \<Rightarrow> t)\<rparr>"

definition creds_ok :: "crypto \<Rightarrow> world \<Rightarrow> string \<Rightarrow> bool" where
  "creds_ok cr w e \<longleftrightarrow>
     (case read_file w (cred_path e ''passhash'') of
        None \<Rightarrow> read_file w (cred_path e ''upass.enc'') = None
      | Some c \<Rightarrow> (case stored_secret cr w e of Inl _ \<Rightarrow> False | Inr p \<Rightarrow> c = hash_of cr p))"

definition key_present :: "world \<Rightarrow> bool" where
  "key_present w \<longleftrightarrow> read_file w MASTER_KEY_FILE \<noteq> None"

lemma creds_ok_cases [consumes 1, case_names absent present]:
  assumes "creds_ok cr w e"
  obtains "read_file w (cred_path e ''passhash'') = None" "read_file w (cred_path e ''upass.enc'') = None"
      "stored_secret cr w e = Inl FileNotFoundError"
    | p where "read_file w (cred_path e ''passhash'') = Some (hash_of cr p)" "stored_secret cr w e = Inr p"
  using assms by (auto simp: creds_ok_def stored_secret_def split: option.splits sum.splits)

lemma stored_secret_cong:
  assumes "read_file w' (cred_path e ''upass.enc'') = read_file w (cred_path e ''upass.enc'')"
    and "read_file w' MASTER_KEY_FILE = read_file w MASTER_KEY_FILE"
  shows "stored_secret cr w' e = stored_secret cr w e"
proof -
  have "decrypt_secret cr w' = decrypt_secret cr w" by (rule ext) (simp add: decrypt_secret_def assms(2))
  then show ?thesis unfolding stored_secret_def assms(1) by (simp only:)
qed

text \<open>The account and its consistency depend on four files only.\<close>

definition account_files :: "string \<Rightarrow> string set" where
  "account_files e = {cred_path e ''passhash'', cred_path e ''upass.enc'', cred_path e ''last_uni'', MASTER_KEY_FILE}"

lemma account_cong:
  assumes "\<And>q. q \<in> account_files e \<Longrightarrow> files w' q = files w q"
  shows "account_of cr w' e = account_of cr w e" "creds_ok cr w' e = creds_ok cr w e"
    "stored_secret cr w' e = stored_secret cr w e" "key_present w' = key_present w"
proof -
  have r: "read_file w' q = read_file w q" if "q \<in> account_files e" for q
    using assms [OF that] by (rule read_file_cong)
  have "stored_secret cr w' e = stored_secret cr w e"
    by (intro stored_secret_cong r) (simp_all add: account_files_def)
  then show "account_of cr w' e = account_of cr w e" "creds_ok cr w' e = creds_ok cr w e"
    "stored_secret cr w' e = stored_secret cr w e" "key_present w' = key_present w"
    unfolding account_of_def creds_ok_def key_present_def by (simp_all add: r account_files_def cong: option.case_cong)
qed

lemma account_files_deauth: "plain_user e \<Longrightarrow> account_files e - {MASTER_KEY_FILE} = {cred_path e ''passhash'', cred_path e ''upass.enc'', cred_path e ''last_uni''}"
  by (auto simp: account_files_def cred_path_not_key)

text \<open>Any change outside a user's own files leaves the accounts of the others alone.\<close>

lemma account_other:
  assumes "plain_user e" "plain_user f" "e \<noteq> f" "\<And>q. q \<notin> set (own_paths e) \<Longrightarrow> files w' q = files w q"
  shows "account_of cr w' f = account_of cr w f" "creds_ok cr w' f = creds_ok cr w f" "key_present w' = key_present w"
proof -
  have k: "\<And>q. q \<in> account_files f \<Longrightarrow> files w' q = files w q"
    by (intro assms(4)) (auto simp: account_files_def own_paths_other [OF assms(1-3)] own_paths_not_key [OF assms(1)])
  show "account_of cr w' f = account_of cr w f" "creds_ok cr w' f = creds_ok cr w f"
    by (intro account_cong k; assumption)+
  show "key_present w' = key_present w" by (rule account_cong(4) [where e = f]) (rule k)
qed

subsection \<open>The steps of a login\<close>

lemma verify_local_account:
  assumes "ideal_crypto cr" "creds_ok cr w e"
  shows "verify_local cr w e p \<longleftrightarrow> ac_secret (account_of cr w e) = Some p"
  using assms(2)
proof (cases rule: creds_ok_cases)
  case (present q)
  have "strip (crypt cr q (mksalt cr)) = crypt cr q (mksalt cr)"
    "crypt cr p (crypt cr q (mksalt cr)) = crypt cr q (mksalt cr) \<longleftrightarrow> p = q"
    using assms(1) by (auto simp: ideal_crypto_def crypto_ok_def)
  with present show ?thesis by (auto simp: verify_local_def account_of_def hash_of_def)
qed (simp add: verify_local_def account_of_def)

lemma is_enrolled_account: "creds_ok cr w e \<Longrightarrow> is_enrolled w e \<longleftrightarrow> ac_secret (account_of cr w e) \<noteq> None"
  by (cases rule: creds_ok_cases, assumption) (auto simp: is_enrolled_def is_file_def account_of_def read_file_def)

lemma uni_answer_verify: "fst (verify_uni conn now e p w) = uni_answer conn e p"
  by (auto simp: verify_uni_def uni_answer_def Let_def split: option.splits)

lemma cooldown_account:
  "fst (cooldown_ok cd now e w) \<longleftrightarrow> \<not> now - ac_last (account_of cr w e) < cd"
  by (simp add: cooldown_ok_def account_of_def Let_def read_file_def)

lemma cooldown_files:
  "files (snd (cooldown_ok cd now e w)) q =
    (if fst (cooldown_ok cd now e w) then
       if q = cred_path e ''last_uni'' then Some (FloatText now, 384)
       else if q = cred_path e ''last_uni'' @ ''.tmp'' then None else files w q
     else files w q)"
  by (simp add: cooldown_ok_def Let_def files_write_atomic)

lemma account_cooldown:
  assumes "plain_user e" "fst (cooldown_ok cd now e w)" "w' = snd (cooldown_ok cd now e w)"
  shows "account_of cr w' e = (account_of cr w e)\<lparr>ac_last := now\<rparr>" "creds_ok cr w' e = creds_ok cr w e"
    "key_present w' = key_present w"
proof -
  have f: "read_file w' (cred_path e ''last_uni'') = Some (FloatText now)"
    "read_file w' (cred_path e ''passhash'') = read_file w (cred_path e ''passhash'')"
    "read_file w' (cred_path e ''upass.enc'') = read_file w (cred_path e ''upass.enc'')"
    "read_file w' MASTER_KEY_FILE = read_file w MASTER_KEY_FILE"
    using assms by (simp_all add: read_file_def cooldown_files path_simps cred_path_not_key [THEN not_sym])
  moreover have "stored_secret cr w' e = stored_secret cr w e" by (rule stored_secret_cong) (simp_all only: f)
  ultimately show "account_of cr w' e = (account_of cr w e)\<lparr>ac_last := now\<rparr>" "creds_ok cr w' e = creds_ok cr w e"
    "key_present w' = key_present w"
    unfolding account_of_def creds_ok_def key_present_def by (simp_all cong: option.case_cong)
qed

lemma account_enroll:
  assumes "ideal_crypto cr" "plain_user e" "key_present w" "enroll cr e p w = (r, w')"
  shows "r = Inr ()" "account_of cr w' e = (account_of cr w e)\<lparr>ac_secret := Some p\<rparr>" "creds_ok cr w' e"
    "key_present w'"
proof -
  have "encrypt_secret cr w p \<noteq> Inl x" for x
    using assms(3) by (auto simp: key_present_def encrypt_secret_def split: option.splits)
  with assms(4) show r: "r = Inr ()"
    by (auto simp: enroll_def Let_def encrypt_after_passhash [OF assms(2)] split: sum.splits)
  with assms(4) have ok: "fst (enroll cr e p w) = Inr ()" "w' = snd (enroll cr e p w)" by simp_all
  note en = files_enroll_ok [OF assms(2) ok]
  have "stored_secret cr w' e = Inr p"
    using en(2,3) assms(1)
    by (auto simp: stored_secret_def encrypt_secret_def decrypt_secret_def ideal_crypto_def crypto_ok_def split: option.splits)
  moreover have "read_file w' (cred_path e ''last_uni'') = read_file w (cred_path e ''last_uni'')"
  proof -
    have "files w' (cred_path e ''last_uni'') = files w (cred_path e ''last_uni'')"
      using assms(2,4) by (auto simp: enroll_def Let_def files_write_atomic path_simps split: sum.splits)
    then show ?thesis by (rule read_file_cong)
  qed
  ultimately show "account_of cr w' e = (account_of cr w e)\<lparr>ac_secret := Some p\<rparr>" "creds_ok cr w' e" "key_present w'"
    using en(1,3) assms(3) by (simp_all add: account_of_def creds_ok_def hash_of_def key_present_def)
qed

subsection \<open>Login and de-enrollment refine the account\<close>

lemma account_vouch:
  assumes "ideal_crypto cr" "plain_user e" "key_present w" "creds_ok cr w e"
    and "vouch cr cd conn now e p w = (r, w')" "ac_secret (account_of cr w e) \<noteq> Some p"
  shows "(r, account_of cr w' e) = account_login cd conn now e p (account_of cr w e) \<and> creds_ok cr w' e \<and> key_present w'"
proof (cases "fst (cooldown_ok cd now e w)")
  case False
  then have "vouch cr cd conn now e p w = (Inr False, snd (cooldown_ok cd now e w))"
    by (cases "cooldown_ok cd now e w") (simp add: vouch_def)
  moreover have "files (snd (cooldown_ok cd now e w)) = files w"
    using False by (intro ext) (simp add: cooldown_files)
  ultimately show ?thesis
    using assms(3-6) False account_cong [of e w' w] by (simp add: cooldown_account [where cr = cr] account_login_def)
next
  case True
  obtain w1 where c: "cooldown_ok cd now e w = (True, w1)" using True by (cases "cooldown_ok cd now e w") auto
  from c have "w1 = snd (cooldown_ok cd now e w)" by simp
  note k = account_cooldown [OF assms(2) True this]
  obtain w2 where v: "verify_uni conn now e p w1 = (uni_answer conn e p, w2)"
    using uni_answer_verify [of conn now e p w1] by (cases "verify_uni conn now e p w1") auto
  have "files w2 = files w1" using verify_uni_frame(1) [of conn now e p w1] v by simp
  then have a: "account_of cr w2 e = (account_of cr w e)\<lparr>ac_last := now\<rparr>" "creds_ok cr w2 e" "key_present w2"
    using account_cong [of e w2 w1] k assms(3,4) by simp_all
  have spec: "account_login cd conn now e p (account_of cr w e) = (uni_answer conn e p, (account_of cr w e)
      \<lparr>ac_last := now, ac_secret := (if uni_answer conn e p = Inr True then Some p else ac_secret (account_of cr w e))\<rparr>)"
    using True assms(6) by (simp add: account_login_def cooldown_account [where cr = cr])
  show ?thesis
  proof (cases "uni_answer conn e p = Inr True")
    case True
    obtain r' w3 where n: "enroll cr e p w2 = (r', w3)" by fastforce
    note en = account_enroll [OF assms(1,2) a(3) n]
    have "r = Inr True" "w' = w3" using assms(5) c v n en(1) True by (simp_all add: vouch_def)
    with en a(1) True show ?thesis unfolding spec by simp
  next
    case False
    then have "r = uni_answer conn e p" "w' = w2"
      using assms(5) c v by (auto simp: vouch_def split: sum.splits bool.splits)
    with a False show ?thesis unfolding spec by simp
  qed
qed

lemma account_authenticate:
  assumes "ideal_crypto cr" "plain_user e" "key_present w" "creds_ok cr w e"
    and "authenticate cr cd conn now e p w = (r, w')"
  shows "(r, account_of cr w' e) = account_login cd conn now e p (account_of cr w e) \<and> creds_ok cr w' e \<and> key_present w'"
proof (cases "ac_secret (account_of cr w e) = Some p")
  case True
  with verify_local_account [OF assms(1,4)] is_enrolled_account [OF assms(4)]
  have "verify_local cr w e p" "is_enrolled w e" by simp_all
  with assms True show ?thesis by (auto simp: authenticate_def account_login_def)
next
  case False
  with verify_local_account [OF assms(1,4)] have "\<not> verify_local cr w e p" by simp
  with assms(5) have "vouch cr cd conn now e p w = (r, w')" by (simp add: authenticate_def split: if_splits)
  from account_vouch [OF assms(1-4) this False] show ?thesis .
qed

lemma account_deauth:
  assumes "plain_user e"
  shows "account_of cr (deauth e w) e = account_deauth (account_of cr w e)" "creds_ok cr (deauth e w) e"
    "key_present (deauth e w) = key_present w"
  using assms cred_path_not_key [OF assms, THEN not_sym]
  by (simp_all add: account_of_def account_deauth_def no_account_def creds_ok_def stored_secret_def read_file_def
      files_deauth key_present_def)

end
