(* ===== verification/RelaySend.thy ===== *)
theory RelaySend
  imports AuthCheck
begin

text \<open>
  \<open>mail/relaysend.py\<close>: the Postfix pipe transport that hands one queued message to the
  university's submission server as its sender.  The parameter \<open>smtp\<close> is what one \<open>smtplib\<close>
  session does: an exception or none for each call, and for \<open>sendmail\<close> either an exception or the
  recipients the server refused although it took the message for the others.  The second
  component of a run is the trace of the messages the university accepted.
\<close>

definition EX_OK :: int where "EX_OK = 0"
definition EX_UNAVAILABLE :: int where "EX_UNAVAILABLE = 69"
definition EX_NOPERM :: int where "EX_NOPERM = 77"
definition EX_TEMPFAIL :: int where "EX_TEMPFAIL = 75"

lemmas ex_defs = EX_OK_def EX_UNAVAILABLE_def EX_NOPERM_def EX_TEMPFAIL_def

record smtp =
  s_open :: "exc option"
  s_ehlo :: "exc option"
  s_starttls :: "exc option"
  s_ehlo_tls :: "exc option"
  s_login :: "string \<Rightarrow> string \<Rightarrow> exc option"
  s_sendmail :: "string \<Rightarrow> string list \<Rightarrow> string \<Rightarrow> string list result"
  s_quit :: "exc option"

text \<open>A message as the university accepted it: sender, the recipients taken, the text.\<close>

type_synonym delivery = "string \<times> string list \<times> string"

fun first_raise :: "exc option list \<Rightarrow> exc option" where
  "first_raise [] = None"
| "first_raise (None # xs) = first_raise xs"
| "first_raise (Some e # xs) = Some e"

text \<open>The body of the \<open>try\<close>: an exception in \<open>quit\<close> comes after the message was taken.\<close>

definition relay_session ::
  "smtp \<Rightarrow> string \<Rightarrow> string \<Rightarrow> string \<Rightarrow> string list \<Rightarrow> string \<Rightarrow> unit result \<times> delivery list" where
  "relay_session srv email password sender recipients message =
     (case first_raise [s_open srv, s_ehlo srv, s_starttls srv, s_ehlo_tls srv,
                        s_login srv (''bzedvz'' @ [CHR 0x5C] @ email) password] of
        Some e \<Rightarrow> (Inl e, [])
      | None \<Rightarrow>
          (case s_sendmail srv sender recipients message of
             Inl e \<Rightarrow> (Inl e, [])
           | Inr refused \<Rightarrow>
               (let sent = [(sender, filter (\<lambda>r. r \<notin> set refused) recipients, message)]
                in case s_quit srv of Some e \<Rightarrow> (Inl e, sent) | None \<Rightarrow> (Inr (), sent))))"

definition relay_main ::
  "crypto \<Rightarrow> smtp \<Rightarrow> string list \<Rightarrow> string \<Rightarrow> world \<Rightarrow> (outcome \<times> delivery list) \<times> world" where
  "relay_main cr srv argv stdin w =
     (case argv of
        _ # sender # r # rs \<Rightarrow>
          (let recipients = r # rs; email = normalize_user sender
           in case read_password cr w email of
                Inl e \<Rightarrow> ((if is_exception e then Exit EX_NOPERM else exit_of e, []), w)
              | Inr password \<Rightarrow>
                  (case relay_session srv email password sender recipients stdin of
                     (Inr _, sent) \<Rightarrow> ((Exit EX_OK, sent), w)
                   | (Inl e, sent) \<Rightarrow>
                       (if e = SmtpAuthenticationError then ((Exit EX_TEMPFAIL, sent), deauth email w)
                        else if e = SmtpRecipientsRefused then ((Exit EX_UNAVAILABLE, sent), w)
                        else if is_os_error e then ((Exit EX_TEMPFAIL, sent), w)
                        else ((exit_of e, sent), w))))
      | _ \<Rightarrow> ((Exit EX_TEMPFAIL, []), w))"

subsection \<open>Outcomes\<close>

text \<open>Every outcome of a run with at least one recipient, in one equation.\<close>

lemma relay_main_cases:
  "relay_main cr srv (prog # sender # r # rs) msg w =
    (case read_password cr w (normalize_user sender) of
       Inl e \<Rightarrow> ((if is_exception e then Exit EX_NOPERM else exit_of e, []), w)
     | Inr pw \<Rightarrow>
         (case relay_session srv (normalize_user sender) pw sender (r # rs) msg of
            (Inr _, sent) \<Rightarrow> ((Exit EX_OK, sent), w)
          | (Inl e, sent) \<Rightarrow>
              ((if e = SmtpRecipientsRefused then Exit EX_UNAVAILABLE
                else if is_os_error e then Exit EX_TEMPFAIL else exit_of e, sent),
               if e = SmtpAuthenticationError then deauth (normalize_user sender) w else w)))"
  by (simp add: relay_main_def Let_def split: sum.split prod.split)

lemma read_password_is_exception: "read_password cr w e = Inl x \<Longrightarrow> is_exception x"
  by (auto simp: read_password_def decrypt_secret_def split: option.splits)

lemma exit_of_not_0: "x \<noteq> SystemExit 0 \<Longrightarrow> exit_of x \<noteq> Exit 0"
  by (cases x) auto

text \<open>What the session needs to have succeeded.\<close>

definition smtp_accepts :: "smtp \<Rightarrow> string \<Rightarrow> string \<Rightarrow> string \<Rightarrow> string list \<Rightarrow> string \<Rightarrow> string list \<Rightarrow> bool" where
  "smtp_accepts srv email pw sender rcpts msg refused \<longleftrightarrow>
     s_open srv = None \<and> s_ehlo srv = None \<and> s_starttls srv = None \<and> s_ehlo_tls srv = None
     \<and> s_login srv (upstream_user email) pw = None \<and> s_sendmail srv sender rcpts msg = Inr refused"

lemma first_raise_None [simp]: "first_raise xs = None \<longleftrightarrow> (\<forall>x\<in>set xs. x = None)"
  by (induction xs rule: first_raise.induct) auto

lemma relay_session_sent:
  "relay_session srv email pw sender rcpts msg = (res, sent) \<Longrightarrow>
   (sent = [] \<and> res \<noteq> Inr ()) \<or>
   (\<exists>refused. smtp_accepts srv email pw sender rcpts msg refused \<and>
      sent = [(sender, filter (\<lambda>r. r \<notin> set refused) rcpts, msg)] \<and> (res = Inr () \<longleftrightarrow> s_quit srv = None))"
  by (auto simp: relay_session_def smtp_accepts_def upstream_user_def Let_def split: option.splits sum.splits)

text \<open>\<open>smtplib\<close> raises only subclasses of \<open>Exception\<close>.\<close>

definition smtp_ok :: "smtp \<Rightarrow> bool" where
  "smtp_ok srv \<longleftrightarrow> (\<forall>n. s_open srv \<noteq> Some (SystemExit n) \<and> s_ehlo srv \<noteq> Some (SystemExit n)
     \<and> s_starttls srv \<noteq> Some (SystemExit n) \<and> s_ehlo_tls srv \<noteq> Some (SystemExit n)
     \<and> s_quit srv \<noteq> Some (SystemExit n)
     \<and> (\<forall>u p. s_login srv u p \<noteq> Some (SystemExit n))
     \<and> (\<forall>f rs m. s_sendmail srv f rs m \<noteq> Inl (SystemExit n)))"

lemma first_raise_Some: "first_raise xs = Some e \<Longrightarrow> \<exists>x\<in>set xs. x = Some e"
  by (induction xs rule: first_raise.induct) auto

lemma relay_session_raises:
  assumes "smtp_ok srv" "relay_session srv email pw sender rcpts msg = (Inl x, sent)"
  shows "x \<noteq> SystemExit n"
  using assms
  by (auto simp: relay_session_def smtp_ok_def Let_def split: option.splits sum.splits dest!: first_raise_Some)
    metis+

text \<open>
  C18.  Postfix may drop a message from its queue as delivered only if the university took it:
  status 0 means that the submission server accepted this text, from this sender, logged in
  with the stored password of the sender's own account; that is all that was sent, and the
  credentials are untouched.
\<close>

theorem relay_ok_was_accepted:
  assumes "smtp_ok srv" "relay_main cr srv (prog # sender # r # rs) msg w = ((Exit EX_OK, sent), w')"
  shows "w' = w \<and> (\<exists>pw refused. read_password cr w (normalize_user sender) = Inr pw \<and>
    smtp_accepts srv (normalize_user sender) pw sender (r # rs) msg refused \<and>
    sent = [(sender, filter (\<lambda>q. q \<notin> set refused) (r # rs), msg)])"
proof (cases "read_password cr w (normalize_user sender)")
  case (Inl e)
  with assms(2) read_password_is_exception [OF Inl] show ?thesis
    by (simp add: relay_main_cases ex_defs)
next
  case (Inr pw)
  obtain res s where rs: "relay_session srv (normalize_user sender) pw sender (r # rs) msg = (res, s)"
    by fastforce
  have "res = Inr () \<and> s = sent \<and> w' = w"
  proof (cases res)
    case (Inl x)
    with relay_session_raises [OF assms(1)] rs have "x \<noteq> SystemExit 0" by blast
    then show ?thesis
      using assms(2) exit_of_not_0 [of x] by (auto simp: relay_main_cases Inr rs Inl ex_defs split: if_splits)
  qed (use assms(2) in \<open>auto simp: relay_main_cases Inr rs\<close>)
  with relay_session_sent [OF rs] Inr show ?thesis by auto
qed

definition smtp_accept_all :: smtp where
  "smtp_accept_all = \<lparr>s_open = None, s_ehlo = None, s_starttls = None, s_ehlo_tls = None,
     s_login = (\<lambda>u p. None), s_sendmail = (\<lambda>f rs m. Inr []), s_quit = None\<rparr>"

lemma relay_enrolled_box:
  "relay_main toy_crypto srv [prog, ''a@b'', r] msg enrolled_box =
    (case relay_session srv ''a@b'' ''pw'' ''a@b'' [r] msg of
       (Inr _, sent) \<Rightarrow> ((Exit EX_OK, sent), enrolled_box)
     | (Inl e, sent) \<Rightarrow>
         ((if e = SmtpRecipientsRefused then Exit EX_UNAVAILABLE
           else if is_os_error e then Exit EX_TEMPFAIL else exit_of e, sent),
          if e = SmtpAuthenticationError then deauth ''a@b'' enrolled_box else enrolled_box))"
  by (simp add: relay_main_cases normalize_ab read_password_enrolled_box split: prod.split sum.split)

theorem relay_ok_was_accepted_witness:
  "\<exists>pw refused. smtp_accepts smtp_accept_all ''a@b'' pw ''a@b'' [''c@d''] ''hi'' refused"
proof -
  have "smtp_ok smtp_accept_all" by (simp add: smtp_ok_def smtp_accept_all_def)
  moreover have "relay_main toy_crypto smtp_accept_all [''p'', ''a@b'', ''c@d''] ''hi'' enrolled_box =
      ((Exit EX_OK, [(''a@b'', [''c@d''], ''hi'')]), enrolled_box)"
    unfolding relay_enrolled_box by (simp add: relay_session_def smtp_accept_all_def)
  ultimately show ?thesis
    using relay_ok_was_accepted normalize_ab by metis
qed

text \<open>
  A transient failure never loses a message: every \<open>SMTPException\<close> or \<open>OSError\<close> of the session
  but a refusal of all recipients defers it (status 75), and the stored credentials are
  dropped exactly when the university rejected them.
\<close>

theorem relay_failure_defers:
  assumes "read_password cr w (normalize_user sender) = Inr pw"
    and "relay_session srv (normalize_user sender) pw sender (r # rs) msg = (Inl x, sent)"
    and "is_os_error x" "x \<noteq> SmtpRecipientsRefused"
  shows "relay_main cr srv (prog # sender # r # rs) msg w =
    ((Exit EX_TEMPFAIL, sent), if x = SmtpAuthenticationError then deauth (normalize_user sender) w else w)"
  using assms by (simp add: relay_main_cases)

theorem relay_failure_defers_witness:
  "relay_main toy_crypto (smtp_accept_all\<lparr>s_open := Some OSError\<rparr>) [''p'', ''a@b'', ''c@d''] ''hi'' enrolled_box
     = ((Exit EX_TEMPFAIL, []), enrolled_box)"
  using relay_failure_defers [of toy_crypto enrolled_box "''a@b''" "''pw''" "smtp_accept_all\<lparr>s_open := Some OSError\<rparr>"
      "''c@d''" "[]" "''hi''" OSError "[]" "''p''"]
  by (simp add: normalize_ab read_password_enrolled_box relay_session_def smtp_accept_all_def)

text \<open>
  The deferral after a rejected password does not hold: dropping the credentials makes the
  next attempt of the queue a permanent failure.  Whenever the message is retried before the
  sender has logged in again, the script exits with 77 and Postfix bounces it.
\<close>

theorem relay_retry_after_deauth_bounces:
  assumes "plain_user (normalize_user sender)"
    and "read_password cr w (normalize_user sender) = Inr pw"
    and "relay_session srv (normalize_user sender) pw sender (r # rs) msg = (Inl SmtpAuthenticationError, sent)"
    and "relay_main cr srv (prog # sender # r # rs) msg w = (res, w')"
  shows "fst res = Exit EX_TEMPFAIL \<and>
    relay_main cr srv' (prog # sender # r # rs) msg w' = ((Exit EX_NOPERM, []), w')"
proof -
  have "res = (Exit EX_TEMPFAIL, sent)" "w' = deauth (normalize_user sender) w"
    using assms(2-4) by (simp_all add: relay_main_cases)
  then show ?thesis
    by (simp add: relay_main_cases read_password_deauth [OF assms(1)])
qed

theorem relay_retry_after_deauth_bounces_witness:
  "fst (fst (relay_main toy_crypto smtp_accept_all [''p'', ''a@b'', ''c@d''] ''hi''
     (snd (relay_main toy_crypto (smtp_accept_all\<lparr>s_login := (\<lambda>u p. Some SmtpAuthenticationError)\<rparr>)
        [''p'', ''a@b'', ''c@d''] ''hi'' enrolled_box)))) = Exit EX_NOPERM"
proof -
  let ?rej = "smtp_accept_all\<lparr>s_login := (\<lambda>u p. Some SmtpAuthenticationError)\<rparr>"
  have "relay_session ?rej ''a@b'' ''pw'' ''a@b'' [''c@d''] ''hi'' = (Inl SmtpAuthenticationError, [])"
    by (simp add: relay_session_def smtp_accept_all_def)
  moreover obtain res w' where "relay_main toy_crypto ?rej [''p'', ''a@b'', ''c@d''] ''hi'' enrolled_box = (res, w')"
    by fastforce
  ultimately show ?thesis
    using relay_retry_after_deauth_bounces [of "''a@b''" toy_crypto enrolled_box "''pw''" ?rej "''c@d''" "[]" "''hi''"
        "[]" "''p''" res w' smtp_accept_all]
    by (simp add: normalize_ab read_password_enrolled_box plain_user_def slash_free_def)
qed

text \<open>
  A recipient the university refuses is dropped without a report when another one is
  accepted: \<open>sendmail\<close> returns the refused recipients, the script ignores them and exits 0.
\<close>

theorem relay_ignores_refused_recipients:
  assumes "read_password cr w (normalize_user sender) = Inr pw"
    and "smtp_accepts srv (normalize_user sender) pw sender (r # rs) msg refused" "s_quit srv = None"
  shows "relay_main cr srv (prog # sender # r # rs) msg w =
    ((Exit EX_OK, [(sender, filter (\<lambda>q. q \<notin> set refused) (r # rs), msg)]), w)"
  using assms by (simp add: relay_main_cases relay_session_def smtp_accepts_def upstream_user_def)

theorem relay_ignores_refused_recipients_witness:
  "relay_main toy_crypto (smtp_accept_all\<lparr>s_sendmail := (\<lambda>f rs m. Inr [''x@y''])\<rparr>)
     [''p'', ''a@b'', ''c@d'', ''x@y''] ''hi'' enrolled_box
   = ((Exit EX_OK, [(''a@b'', [''c@d''], ''hi'')]), enrolled_box)"
  using relay_ignores_refused_recipients [of toy_crypto enrolled_box "''a@b''" "''pw''"
      "smtp_accept_all\<lparr>s_sendmail := (\<lambda>f rs m. Inr [''x@y''])\<rparr>" "''c@d''" "[''x@y'']" "''hi''" "[''x@y'']" "''p''"]
  by (simp add: normalize_ab read_password_enrolled_box smtp_accepts_def smtp_accept_all_def)

text \<open>
  A connection lost at \<open>QUIT\<close>, after the message was taken, defers the message all the same, so
  the retry sends it a second time.
\<close>

lemma relay_quit_failure_duplicates:
  assumes "read_password cr w (normalize_user sender) = Inr pw"
    and "smtp_accepts srv (normalize_user sender) pw sender (r # rs) msg []" "s_quit srv = Some SmtpException"
  shows "relay_main cr srv (prog # sender # r # rs) msg w = ((Exit EX_TEMPFAIL, [(sender, r # rs, msg)]), w)"
  using assms by (simp add: relay_main_cases relay_session_def smtp_accepts_def upstream_user_def)

end
