(* ===== verification/ImapList.thy ===== *)
theory ImapList
  imports Prelude
begin

text \<open>
  \<open>mail/imap_list.py\<close>: decoding modified UTF-7 folder names and parsing the lines of an
  IMAP LIST or LSUB response.  \<open>base64.b64decode\<close> and the \<open>utf-16-be\<close> codec of Python's
  standard library are written out (lenient base64: characters outside the alphabet are
  skipped, a short final group is an error).  The regular expression \<open>_LIST_RE\<close> is the
  recursive-descent matcher \<open>match_list\<close>; every group of it is delimited by a character the
  group excludes, so the matcher has no choice to backtrack into, and the line has been
  stripped before, so the final \<open>.+$\<close> is the whole rest of a line that has no newline.
\<close>

subsection \<open>Base64 and UTF-16, as Python decodes them\<close>

definition b64_val :: "nat \<Rightarrow> nat option" where
  "b64_val c =
     (if 65 \<le> c \<and> c \<le> 90 then Some (c - 65)
      else if 97 \<le> c \<and> c \<le> 122 then Some (c - 71)
      else if 48 \<le> c \<and> c \<le> 57 then Some (c + 4)
      else if c = 43 then Some 62
      else if c = 47 then Some 63
      else None)"

definition prepend :: "'a list \<Rightarrow> 'a list result \<Rightarrow> 'a list result" where
  "prepend xs r = (case r of Inl e \<Rightarrow> Inl e | Inr ys \<Rightarrow> Inr (xs @ ys))"

text \<open>
  \<open>binascii.a2b_base64\<close>, not strict: \<open>q\<close> is the position in the group of four, \<open>l\<close> the bits
  left over from the last character, \<open>p\<close> the number of \<open>=\<close> signs just seen.
\<close>

fun a2b :: "nat \<Rightarrow> nat \<Rightarrow> nat \<Rightarrow> nat list \<Rightarrow> nat list result" where
  "a2b q l p [] = (if q = 0 then Inr [] else Inl BinasciiError)"
| "a2b q l p (c # cs) =
     (if c = 61 then
        (if 2 \<le> q \<and> 4 \<le> q + (p + 1) then Inr []
         else a2b q l (if 2 \<le> q then p + 1 else p) cs)
      else (case b64_val c of
        None \<Rightarrow> a2b q l p cs
      | Some v \<Rightarrow>
          (if q = 0 then a2b 1 v 0 cs
           else if q = 1 then prepend [l * 4 + v div 16] (a2b 2 (v mod 16) 0 cs)
           else if q = 2 then prepend [l * 16 + v div 4] (a2b 3 (v mod 4) 0 cs)
           else prepend [l * 64 + v] (a2b 0 0 0 cs))))"

definition b64decode :: "nat list \<Rightarrow> nat list result" where
  "b64decode s = (if \<exists>c\<in>set s. 128 \<le> c then Inl ValueError else a2b 0 0 0 s)"

text \<open>\<open>bytes.decode("utf-16-be")\<close>, strict.\<close>

fun utf16be :: "nat list \<Rightarrow> nat list result" where
  "utf16be [] = Inr []"
| "utf16be [a] = Inl UnicodeError"
| "utf16be (a # b # r) =
     (let u = a * 256 + b in
      if 55296 \<le> u \<and> u < 56320 then
        (case r of
           c # d # r' \<Rightarrow>
             (let w = c * 256 + d in
              if 56320 \<le> w \<and> w < 57344
              then prepend [65536 + (u - 55296) * 1024 + (w - 56320)] (utf16be r')
              else Inl UnicodeError)
         | _ \<Rightarrow> Inl UnicodeError)
      else if 56320 \<le> u \<and> u < 57344 then Inl UnicodeError
      else prepend [u] (utf16be r))"

subsection \<open>imap_utf7_decode\<close>

text \<open>
  The nonempty text between \<open>&\<close> and \<open>-\<close>: comma for slash, padding up to a multiple of four,
  base64, UTF-16.
\<close>

definition decode_chunk :: "nat list \<Rightarrow> nat list result" where
  "decode_chunk chunk =
     (let b64 = replace_all [44] [47] chunk;
          b64' = b64 @ replicate (nat ((- int (length b64)) mod 4)) 61
      in case b64decode b64' of Inl e \<Rightarrow> Inl e | Inr bs \<Rightarrow> utf16be bs)"

text \<open>The \<open>while\<close> loop, with the rest of the string \<open>s[i:]\<close> as its state.\<close>

function imap_utf7_decode :: "nat list \<Rightarrow> nat list result" where
  "imap_utf7_decode [] = Inr []"
| "imap_utf7_decode (c # cs) =
     (if c = 38 then
        (case find_elem 45 cs of
           None \<Rightarrow> Inr (c # cs)
         | Some j \<Rightarrow>
             (if take j cs = [] then prepend [38] (imap_utf7_decode (drop (Suc j) cs))
              else (case decode_chunk (take j cs) of
                      Inl e \<Rightarrow> Inl e
                    | Inr t \<Rightarrow> prepend t (imap_utf7_decode (drop (Suc j) cs)))))
      else prepend [c] (imap_utf7_decode cs))"
  by pat_completeness auto
termination
  by (relation "measure length") auto

subsection \<open>parse_list\<close>

text \<open>An element of imaplib's response data: nothing, a line, or a line with a literal.\<close>

datatype list_item = NoLine | Line string | Literal string string

text \<open>\<open>bytes.decode("ascii", "replace")\<close>.\<close>

definition ascii_replace :: "string \<Rightarrow> nat list" where
  "ascii_replace s = map (\<lambda>c. let n = of_char c in if n < 128 then n else 65533) s"

text \<open>\<open>str.split()\<close> on decoded ASCII: runs of whitespace separate.\<close>

definition split_space :: "nat \<Rightarrow> bool" where
  "split_space n \<longleftrightarrow> (9 \<le> n \<and> n \<le> 13) \<or> (28 \<le> n \<and> n \<le> 32)"

function split_ws :: "nat list \<Rightarrow> nat list list" where
  "split_ws [] = []"
| "split_ws (c # cs) =
     (if split_space c then split_ws cs
      else (c # takeWhile (\<lambda>n. \<not> split_space n) cs)
             # split_ws (dropWhile (\<lambda>n. \<not> split_space n) cs))"
  by pat_completeness auto
termination
  by (relation "measure length") (auto simp: le_imp_less_Suc length_dropWhile_le)

text \<open>One or more whitespace bytes, then the rest.\<close>

definition spaces1 :: "string \<Rightarrow> string option" where
  "spaces1 s = (case s of [] \<Rightarrow> None
     | c # cs \<Rightarrow> if byte_space c then Some (dropWhile byte_space cs) else None)"

definition match_sep :: "string \<Rightarrow> (string option \<times> string) option" where
  "match_sep s =
     (case s of [] \<Rightarrow> None
      | c # cs \<Rightarrow>
          (if c = CHR 0x22 then
             (case find_elem (CHR 0x22) cs of
                None \<Rightarrow> None
              | Some j \<Rightarrow> Some (Some (take j cs), drop (Suc j) cs))
           else if prefix ''NIL'' s then Some (None, drop 3 s)
           else None))"

definition match_name :: "string \<Rightarrow> string option" where
  "match_name s = (if s = [] \<or> CHR 0x0A \<in> set s then None else Some s)"

definition match_list :: "string \<Rightarrow> (string \<times> string option \<times> string) option" where
  "match_list s =
     (case s of [] \<Rightarrow> None
      | c # cs \<Rightarrow>
          (if c = CHR ''('' then
             Option.bind (find_elem (CHR '')'') cs) (\<lambda>j.
             Option.bind (spaces1 (drop (Suc j) cs)) (\<lambda>r1.
             Option.bind (match_sep r1) (\<lambda>(sep, r2).
             Option.bind (spaces1 r2) (\<lambda>r3.
             Option.bind (match_name r3) (\<lambda>name. Some (take j cs, sep, name))))))
           else None))"

definition unquote :: "string \<Rightarrow> string" where
  "unquote name = (if prefix [CHR 0x22] name \<and> suffix [CHR 0x22] name then butlast (tl name) else name)"

type_synonym folder = "nat list"
type_synonym listed = "folder \<times> nat list list \<times> nat list"

fun parse_list :: "list_item list \<Rightarrow> listed list result" where
  "parse_list [] = Inr []"
| "parse_list (NoLine # xs) = parse_list xs"
| "parse_list (Literal a b # xs) = Inl AttributeError"
| "parse_list (Line raw # xs) =
     (if raw = [] then parse_list xs
      else (case match_list (strip_bytes raw) of
        None \<Rightarrow> parse_list xs
      | Some (fl, sp, nm) \<Rightarrow>
          (let flags = split_ws (ascii_replace fl);
               sep = ascii_replace (case sp of None \<Rightarrow> [] | Some b \<Rightarrow> b);
               name = unquote (strip_bytes nm)
           in case imap_utf7_decode (ascii_replace name) of
                Inl e \<Rightarrow> Inl e
              | Inr d \<Rightarrow> prepend [(d, flags, sep)] (parse_list xs))))"

definition list_names :: "list_item list \<Rightarrow> folder list result" where
  "list_names lines = (case parse_list lines of Inl e \<Rightarrow> Inl e | Inr xs \<Rightarrow> Inr (map fst xs))"

subsection \<open>The reference encoder\<close>

text \<open>
  The encoding of RFC 3501, section 5.1.3, which the university's server applies: printable
  ASCII stands for itself (\<open>&\<close> as \<open>&-\<close>), every other maximal run of characters is its UTF-16
  in base64 without padding, comma for slash, between \<open>&\<close> and \<open>-\<close>.
\<close>

definition b64_char :: "nat \<Rightarrow> nat" where
  "b64_char v =
     (if v < 26 then v + 65 else if v < 52 then v + 71 else if v < 62 then v - 4
      else if v = 62 then 43 else 47)"

fun b64encode :: "nat list \<Rightarrow> nat list" where
  "b64encode [] = []"
| "b64encode [a] = [b64_char (a div 4), b64_char (a mod 4 * 16)]"
| "b64encode [a, b] =
     [b64_char (a div 4), b64_char (a mod 4 * 16 + b div 16), b64_char (b mod 16 * 4)]"
| "b64encode (a # b # c # r) =
     b64_char (a div 4) # b64_char (a mod 4 * 16 + b div 16)
       # b64_char (b mod 16 * 4 + c div 64) # b64_char (c mod 64) # b64encode r"

definition utf16be_char :: "nat \<Rightarrow> nat list" where
  "utf16be_char c =
     (if c < 65536 then [c div 256, c mod 256]
      else let u = 55296 + (c - 65536) div 1024; w = 56320 + (c - 65536) mod 1024
           in [u div 256, u mod 256, w div 256, w mod 256])"

definition scalar :: "nat \<Rightarrow> bool" where
  "scalar c \<longleftrightarrow> c < 55296 \<or> (57344 \<le> c \<and> c < 1114112)"

definition utf7_plain :: "nat \<Rightarrow> bool" where
  "utf7_plain c \<longleftrightarrow> 32 \<le> c \<and> c \<le> 126"

definition utf7_chunk :: "nat list \<Rightarrow> nat list" where
  "utf7_chunk run = map (\<lambda>c. if c = 47 then 44 else c) (b64encode (concat (map utf16be_char run)))"

function utf7_encode :: "nat list \<Rightarrow> nat list" where
  "utf7_encode [] = []"
| "utf7_encode (c # cs) =
     (if c = 38 then [38, 45] @ utf7_encode cs
      else if utf7_plain c then c # utf7_encode cs
      else 38 # utf7_chunk (c # takeWhile (\<lambda>x. \<not> utf7_plain x) cs)
             @ 45 # utf7_encode (dropWhile (\<lambda>x. \<not> utf7_plain x) cs))"
  by pat_completeness auto
termination
  by (relation "measure length") (auto simp: le_imp_less_Suc length_dropWhile_le)

subsection \<open>Decoding inverts encoding\<close>

lemma prepend_simps [simp]:
  "prepend xs (Inr ys) = Inr (xs @ ys)" "prepend xs (Inl e) = Inl e"
  by (simp_all add: prepend_def)

lemma b64_val_char: "v < 64 \<Longrightarrow> b64_val (b64_char v) = Some v"
  by (auto simp: b64_val_def b64_char_def)

lemma b64_char_bounds: "b64_char v \<noteq> 61" "b64_char v \<noteq> 44" "b64_char v \<noteq> 45" "v < 64 \<Longrightarrow> b64_char v < 128"
  by (auto simp: b64_char_def)

lemma div_bound: "a < m * n \<Longrightarrow> a div n < m" for a m n :: nat
  by (rule less_mult_imp_div_less)

lemma sextet_bounds:
  fixes a b :: nat
  shows "a < 256 \<Longrightarrow> a div 4 < 64" and "a mod 4 * 16 < 64" and "a mod 16 * 4 < 64" and "a mod 64 < 64"
    and "b < 256 \<Longrightarrow> a mod 4 * 16 + b div 16 < 64" and "b < 256 \<Longrightarrow> a mod 16 * 4 + b div 64 < 64"
proof -
  have m: "a mod 4 < 4" "a mod 16 < 16" by simp_all
  show "a < 256 \<Longrightarrow> a div 4 < 64" by (simp add: div_bound)
  show "a mod 4 * 16 < 64" "a mod 16 * 4 < 64" "a mod 64 < 64" using m by simp_all
  show "b < 256 \<Longrightarrow> a mod 4 * 16 + b div 16 < 64"
    using m(1) div_bound [of b 16 16] by simp
  show "b < 256 \<Longrightarrow> a mod 16 * 4 + b div 64 < 64"
    using m(2) div_bound [of b 4 64] by simp
qed

lemma sextet_digits:
  fixes b c :: nat
  shows "b < 256 \<Longrightarrow> b div 16 div 16 = 0" and "b < 256 \<Longrightarrow> b div 16 mod 16 = b div 16"
    and "c < 256 \<Longrightarrow> c div 64 div 4 = 0" and "c < 256 \<Longrightarrow> c div 64 mod 4 = c div 64"
  using div_bound [of b 16 16] div_bound [of c 4 64] by simp_all

lemma b64encode_set: "\<forall>b\<in>set bs. b < 256 \<Longrightarrow> set (b64encode bs) \<subseteq> b64_char ` {..<64}"
  by (induction bs rule: b64encode.induct) (auto simp: sextet_bounds)

lemma a2b_char:
  "v < 64 \<Longrightarrow> a2b q l p (b64_char v # cs) =
     (if q = 0 then a2b 1 v 0 cs
      else if q = 1 then prepend [l * 4 + v div 16] (a2b 2 (v mod 16) 0 cs)
      else if q = 2 then prepend [l * 16 + v div 4] (a2b 3 (v mod 4) 0 cs)
      else prepend [l * 64 + v] (a2b 0 0 0 cs))"
  by (simp add: b64_char_bounds b64_val_char)

lemma a2b_pad: "a2b 2 l 0 (replicate 2 61) = Inr []" "a2b 3 l 0 [61] = Inr []"
  by (simp_all add: numeral_2_eq_2)

lemma length_b64encode_step:
  "(- int (length (b64encode (a # b # c # r)))) mod 4 = (- int (length (b64encode r))) mod 4"
  by simp presburger

lemma a2b_encode:
  "\<forall>b\<in>set bs. b < 256 \<Longrightarrow>
   a2b 0 l p (b64encode bs @ replicate (nat ((- int (length (b64encode bs))) mod 4)) 61) = Inr bs"
proof (induction bs arbitrary: l p rule: b64encode.induct)
  case (4 a b c r)
  then have IH: "a2b 0 l p (b64encode r @ replicate (nat ((- int (length (b64encode r))) mod 4)) 61) = Inr r" for l p
    by simp
  from 4 have "a < 256" "b < 256" "c < 256" by simp_all
  then show ?case
    unfolding length_b64encode_step
    by (simp add: a2b_char sextet_bounds sextet_digits IH del: a2b.simps One_nat_def)
qed (simp_all add: a2b_char a2b_pad sextet_bounds sextet_digits del: a2b.simps(2))

lemma utf16be_char_bytes: "scalar c \<Longrightarrow> \<forall>b\<in>set (utf16be_char c). b < 256"
  by (auto simp: utf16be_char_def scalar_def Let_def)

lemma utf16be_char:
  assumes "scalar c"
  shows "utf16be (utf16be_char c @ r) = prepend [c] (utf16be r)"
proof (cases "c < 65536")
  case True
  have "c div 256 * 256 + c mod 256 = c" by simp
  with True assms show ?thesis by (auto simp: utf16be_char_def scalar_def)
next
  case False
  define v where "v = c - 65536"
  with False assms have v: "v < 1048576" and c: "c = 65536 + v" by (auto simp: scalar_def)
  have "v div 1024 < 1024" using v by (simp add: div_bound)
  with \<open>v div 1024 < 1024\<close> False show ?thesis
    by (simp add: utf16be_char_def c Let_def add.commute)
qed

lemma utf16be_concat:
  "\<forall>c\<in>set s. scalar c \<Longrightarrow> utf16be (concat (map utf16be_char s)) = Inr s"
  by (induction s) (auto simp: utf16be_char)

lemma concat_map_id: "(\<And>c. c \<in> set xs \<Longrightarrow> f c = [c]) \<Longrightarrow> concat (map f xs) = xs"
  by (induction xs) auto

lemma decode_chunk_utf7_chunk:
  assumes "\<forall>c\<in>set run. scalar c"
  shows "decode_chunk (utf7_chunk run) = Inr run"
proof -
  define bs where "bs = concat (map utf16be_char run)"
  have bytes: "\<forall>b\<in>set bs. b < 256"
    using assms utf16be_char_bytes by (auto simp: bs_def)
  have "set (b64encode bs) \<subseteq> b64_char ` {..<64}" by (rule b64encode_set [OF bytes])
  then have chars: "c \<noteq> 44 \<and> c < 128" if "c \<in> set (b64encode bs)" for c
    using that b64_char_bounds by auto
  have slash: "replace_all [44] [47] (utf7_chunk run) = b64encode bs"
    unfolding utf7_chunk_def bs_def [symmetric] replace_all_single map_map comp_def
    by (rule concat_map_id) (use chars in auto)
  show ?thesis
    unfolding decode_chunk_def slash Let_def b64decode_def
    using chars a2b_encode [OF bytes, of 0 0] assms
    by (auto simp: bs_def utf16be_concat not_le)
qed

lemma utf7_chunk_no_dash:
  assumes "\<forall>c\<in>set run. scalar c"
  shows "45 \<notin> set (utf7_chunk run)"
proof -
  have "set (b64encode (concat (map utf16be_char run))) \<subseteq> b64_char ` {..<64}"
    using assms utf16be_char_bytes by (intro b64encode_set) auto
  then have "45 \<notin> set (b64encode (concat (map utf16be_char run)))"
    using b64_char_bounds(3) by (metis imageE subsetD)
  then show ?thesis by (auto simp: utf7_chunk_def split: if_splits)
qed

lemma utf7_chunk_nonempty: "utf7_chunk (c # run) \<noteq> []"
proof -
  have "utf16be_char c \<noteq> []" by (simp add: utf16be_char_def Let_def)
  then have "b64encode (utf16be_char c @ bs) \<noteq> []" for bs
    by (cases "utf16be_char c @ bs" rule: b64encode.cases) auto
  then show ?thesis by (simp add: utf7_chunk_def)
qed

lemma decode_shift:
  "\<forall>c\<in>set run. scalar c \<Longrightarrow> run \<noteq> [] \<Longrightarrow>
   imap_utf7_decode (38 # utf7_chunk run @ 45 # r) = prepend run (imap_utf7_decode r)"
  by (cases run) (auto simp: find_elem_append utf7_chunk_no_dash utf7_chunk_nonempty decode_chunk_utf7_chunk)

lemma utf7_decode_encode:
  "\<forall>c\<in>set s. scalar c \<Longrightarrow> imap_utf7_decode (utf7_encode s) = Inr s"
proof (induction s rule: utf7_encode.induct)
  case (2 c cs)
  let ?np = "\<lambda>x. \<not> utf7_plain x"
  have sc: "\<forall>x\<in>set (c # takeWhile ?np cs). scalar x" "\<forall>x\<in>set (dropWhile ?np cs). scalar x"
    using 2(4) by (auto dest: set_takeWhileD set_dropWhileD)
  consider "c = 38" | "c \<noteq> 38" "utf7_plain c" | "c \<noteq> 38" "\<not> utf7_plain c" by blast
  then show ?case
  proof cases
    case 3
    then show ?thesis
      using 2(3) decode_shift [OF sc(1)] sc(2) by (simp del: imap_utf7_decode.simps(2))
  qed (use 2 in simp_all)
qed simp


text \<open>
  C16.  Decoding a folder name the university encoded in modified UTF-7 gives the name back,
  for every string of Unicode scalar values.
\<close>

theorem utf7_roundtrip:
  "\<forall>c\<in>set s. scalar c \<Longrightarrow> imap_utf7_decode (utf7_encode s) = Inr s"
  by (rule utf7_decode_encode)

theorem utf7_roundtrip_witness:
  "imap_utf7_decode (utf7_encode [69, 252, 128512, 38, 45]) = Inr [69, 252, 128512, 38, 45]"
  using utf7_roundtrip [of "[69, 252, 128512, 38, 45]"] by (simp add: scalar_def)

subsection \<open>LIST lines as the server prints them\<close>

definition imap_quote :: "string \<Rightarrow> string" where
  "imap_quote s = concat (map (\<lambda>c. if c = CHR 0x22 \<or> c = CHR 0x5C then [CHR 0x5C, c] else [c]) s)"

definition server_line :: "string list \<times> char \<times> folder \<Rightarrow> string" where
  "server_line l = (case l of (flags, sep, name) \<Rightarrow>
     ''('' @ join '' '' flags @ '')'' @ '' '' @ [CHR 0x22, sep, CHR 0x22] @ '' ''
       @ [CHR 0x22] @ imap_quote (map char_of (utf7_encode name)) @ [CHR 0x22])"

definition flag_token :: "string \<Rightarrow> bool" where
  "flag_token f \<longleftrightarrow> f \<noteq> [] \<and> (\<forall>c\<in>set f. of_char c < (128::nat) \<and> \<not> split_space (of_char c) \<and> c \<noteq> CHR '')'')"

definition plain_line :: "string list \<times> char \<times> folder \<Rightarrow> bool" where
  "plain_line l \<longleftrightarrow> (case l of (flags, sep, name) \<Rightarrow>
     (\<forall>f\<in>set flags. flag_token f) \<and> of_char sep < (128::nat) \<and> sep \<noteq> CHR 0x22
     \<and> (\<forall>c\<in>set name. scalar c \<and> c \<noteq> 34 \<and> c \<noteq> 92))"

lemma utf7_chunk_range:
  assumes "\<forall>c\<in>set run. scalar c" "x \<in> set (utf7_chunk run)"
  shows "38 \<le> x \<and> x \<le> 122 \<and> x \<noteq> 92"
proof -
  have "set (b64encode (concat (map utf16be_char run))) \<subseteq> b64_char ` {..<64}"
    using assms utf16be_char_bytes by (intro b64encode_set) auto
  with assms(2) obtain v where "v < 64" "x = (if b64_char v = 47 then 44 else b64_char v)"
    unfolding utf7_chunk_def by fastforce
  then show ?thesis by (auto simp: b64_char_def split: if_splits)
qed

lemma utf7_encode_range:
  "\<forall>c\<in>set s. scalar c \<Longrightarrow> x \<in> set (utf7_encode s) \<Longrightarrow>
   (x \<in> set s \<and> utf7_plain x) \<or> (38 \<le> x \<and> x \<le> 122 \<and> x \<noteq> 92)"
proof (induction s rule: utf7_encode.induct)
  case (2 c cs)
  let ?np = "\<lambda>x. \<not> utf7_plain x"
  have sc: "\<forall>x\<in>set (c # takeWhile ?np cs). scalar x" "\<forall>x\<in>set (dropWhile ?np cs). scalar x"
    using 2(4) by (auto dest: set_takeWhileD set_dropWhileD)
  consider "c = 38" | "c \<noteq> 38" "utf7_plain c" | "c \<noteq> 38" "\<not> utf7_plain c" by blast
  then show ?case
  proof cases
    case 3
    then consider "x = 38" | "x = 45" | "x \<in> set (utf7_chunk (c # takeWhile ?np cs))"
      | "x \<in> set (utf7_encode (dropWhile ?np cs))"
      using 2(5) by auto
    then show ?thesis
      by cases (use utf7_chunk_range [OF sc(1)] 2(3) [OF 3 sc(2)] in \<open>auto dest: set_dropWhileD\<close>)
  qed (use 2 in auto)
qed simp

lemma split_space_32: "split_space 32"
  by (simp add: split_space_def)

lemma split_ws_token:
  "f \<noteq> [] \<Longrightarrow> \<forall>c\<in>set f. \<not> split_space c \<Longrightarrow>
   split_ws (f @ 32 # r) = f # split_ws r \<and> split_ws f = [f]"
  by (cases f) (simp_all add: takeWhile_append2 dropWhile_append2 split_space_32
      takeWhile_eq_all_conv [THEN iffD2] dropWhile_eq_Nil_conv [THEN iffD2])

lemma split_ws_join:
  "\<forall>f\<in>set fs. flag_token f \<Longrightarrow> split_ws (ascii_replace (join '' '' fs)) = map lit fs"
proof (induction "'' ''" fs rule: join.induct)
  case (2 x)
  then show ?case
    using split_ws_token [of "ascii_replace x"] 
    by (auto simp: flag_token_def ascii_replace_def Let_def lit_def)
next
  case (3 x y r)
  have a: "ascii_replace x = lit x" "ascii_replace '' '' = [32]" using 3(2)
    by (auto simp: flag_token_def ascii_replace_def Let_def lit_def)
  have n: "lit x \<noteq> []" "\<forall>c\<in>set (lit x). \<not> split_space c" using 3(2)
    by (auto simp: flag_token_def lit_def)
  have "ascii_replace (join '' '' (x # y # r)) = lit x @ 32 # ascii_replace (join '' '' (y # r))"
    using a by (simp add: ascii_replace_def)
  then show ?case
    using split_ws_token [OF n] 3 by simp
qed (simp add: ascii_replace_def)

lemma join_set: "x \<in> set (join sep xs) \<Longrightarrow> x \<in> set sep \<or> (\<exists>y\<in>set xs. x \<in> set y)"
  by (induction sep xs rule: join.induct) auto

lemma match_list_line:
  assumes "CHR '')'' \<notin> set fl" "sep \<noteq> CHR 0x22" "CHR 0x0A \<notin> set nm"
  shows "match_list (CHR ''('' # fl @ CHR '')'' # CHR '' '' # CHR 0x22 # sep # CHR 0x22 # CHR '' '' # CHR 0x22 # nm)
     = Some (fl, Some [sep], CHR 0x22 # nm)"
  using assms
  by (simp add: match_list_def find_elem_append spaces1_def byte_space_def match_sep_def match_name_def)

lemma parse_list_Line:
  assumes "plain_line l"
  shows "parse_list (Line (server_line l) # xs) =
    prepend [case l of (flags, sep, name) \<Rightarrow> (name, map lit flags, lit [sep])] (parse_list xs)"
proof (cases l)
  case (fields flags sep name)
  let ?nm = "map char_of (utf7_encode name) :: string"
  from assms fields have fl: "\<forall>f\<in>set flags. flag_token f" and sep: "of_char sep < (128::nat)" "sep \<noteq> CHR 0x22"
    and nm: "\<forall>c\<in>set name. scalar c \<and> c \<noteq> 34 \<and> c \<noteq> 92" by (auto simp: plain_line_def)
  have plain: "utf7_plain x \<and> x \<noteq> 34 \<and> x \<noteq> 92" if "x \<in> set (utf7_encode name)" for x
    using that nm utf7_encode_range [of name x] by (auto simp: utf7_plain_def)
  have nl: "c \<noteq> CHR 0x22 \<and> c \<noteq> CHR 0x5C \<and> c \<noteq> CHR 0x0A" if c: "c \<in> set ?nm" for c
  proof -
    from c obtain x where "x \<in> set (utf7_encode name)" "c = char_of x" by auto
    with plain [of x] have "of_char c = x" "10 < x" "x \<noteq> 34" "x \<noteq> 92"
      by (auto simp: utf7_plain_def of_char_of)
    then show ?thesis by auto
  qed
  have q: "imap_quote ?nm = ?nm" unfolding imap_quote_def by (rule concat_map_id) (use nl in auto)
  have fp: "CHR '')'' \<notin> set (join '' '' flags)"
    using fl join_set [of "CHR '')''" "'' ''" flags] by (auto simp: flag_token_def)
  have raw: "server_line l = CHR ''('' # join '' '' flags @ CHR '')'' # CHR '' '' # CHR 0x22 # sep # CHR 0x22 # CHR '' '' # CHR 0x22 # ?nm @ [CHR 0x22]"
    by (simp add: server_line_def fields q)
  have st: "strip_bytes (server_line l) = server_line l"
    unfolding strip_bytes_def by (rule strip_by_id) (simp_all add: raw byte_space_def)
  have m: "match_list (server_line l) = Some (join '' '' flags, Some [sep], CHR 0x22 # ?nm @ [CHR 0x22])"
    unfolding raw using fp sep nl by (intro match_list_line) auto
  have u: "unquote (strip_bytes (CHR 0x22 # ?nm @ [CHR 0x22])) = ?nm"
    using strip_by_id [of "CHR 0x22 # ?nm @ [CHR 0x22]" byte_space]
    by (simp add: strip_bytes_def byte_space_def unquote_def butlast_append suffix_def)
  have r: "ascii_replace ?nm = utf7_encode name"
    unfolding ascii_replace_def map_map comp_def
    by (rule map_idI) (auto simp: Let_def of_char_of dest!: plain simp: utf7_plain_def)
  have d: "imap_utf7_decode (utf7_encode name) = Inr name" using nm by (intro utf7_decode_encode) auto
  have a: "ascii_replace [sep] = lit [sep]" using sep(1) by (simp add: ascii_replace_def lit_def)
  have ne: "server_line l \<noteq> []" by (simp add: raw)
  have "parse_list (Line (server_line l) # xs) =
      prepend [(name, map lit flags, lit [sep])] (parse_list xs)"
    by (simp only: parse_list.simps st m ne if_False option.case prod.case Let_def u r d a sum.case
        split_ws_join [OF fl])
  then show ?thesis by (simp add: fields)
qed



text \<open>
  The server escapes a quote inside a name, and nothing undoes it: the folder \<open>a"\<close> comes back
  as \<open>a\"\<close>.
\<close>

lemma parse_list_keeps_escapes:
  "parse_list [Line (''() NIL '' @ [CHR 0x22] @ imap_quote [CHR ''a'', CHR 0x22] @ [CHR 0x22])]
     = Inr [([97, 92, 34], [], [])]"
  by (simp add: imap_quote_def strip_bytes_def strip_by_def byte_space_def
      match_list_def find_elem_append spaces1_def match_sep_def match_name_def unquote_def suffix_def
      ascii_replace_def)

lemma prepend_Inl [simp]: "prepend xs r = Inl e \<longleftrightarrow> r = Inl e"
  by (cases r) auto

lemma a2b_error: "a2b q l p s = Inl e \<Longrightarrow> e = BinasciiError"
  by (induction q l p s rule: a2b.induct) (auto split: if_splits option.splits)

lemma utf16be_error: "utf16be s = Inl e \<Longrightarrow> e = UnicodeError"
  by (induction s rule: utf16be.induct) (auto simp: Let_def split: if_splits list.splits)

lemma decode_chunk_error: "decode_chunk s = Inl e \<Longrightarrow> is_value_error e"
  by (auto simp: decode_chunk_def Let_def b64decode_def split: sum.splits if_splits
      dest: a2b_error utf16be_error)

lemma imap_utf7_decode_error: "imap_utf7_decode s = Inl e \<Longrightarrow> is_value_error e"
  by (induction s rule: imap_utf7_decode.induct)
    (auto split: if_splits option.splits sum.splits dest: decode_chunk_error)

text \<open>
  One undecodable name makes the whole response raise.
\<close>

lemma parse_list_bad_name:
  "parse_list [Line (CHR ''('' # '') NIL INBOX''), Line (CHR ''('' # '') NIL A&x-B'')] = Inl BinasciiError"
  by (simp add: numeral_3_eq_3 decode_chunk_def b64decode_def b64_val_def strip_bytes_def strip_by_def byte_space_def
      match_list_def find_elem_append spaces1_def match_sep_def match_name_def unquote_def suffix_def
      ascii_replace_def)
end
