(* ===== verification/Upstream.thy ===== *)
theory Upstream
  imports AuthCheck ImapList
begin

text \<open>
  What \<open>sync.py\<close>, \<open>special_use.py\<close> and \<open>idle.py\<close> share: the users that have a stored secret,
  and one IMAP session with the university.  The parameter \<open>imap_conn\<close> is what the session does:
  an exception or none at connecting and at LOGIN, and for LIST an exception or the status of the
  tagged reply with the response data.  \<open>imaplib\<close> returns a \<open>NO\<close> like an \<open>OK\<close>, with the text
  of the reply as its data.
\<close>

record imap_conn =
  i_connect :: "exc option"
  i_login :: "string \<Rightarrow> string \<Rightarrow> exc option"
  i_list :: "(string \<times> list_item list) result"

text \<open>
  \<open>glob.glob("/mail/.creds/*/")\<close>: the directories directly below, but those with a leading dot.
\<close>

definition creds_entries :: "world \<Rightarrow> string list" where
  "creds_entries w =
     map (drop 13) (filter (\<lambda>d. prefix ''/mail/.creds/'' d \<and> drop 13 d \<noteq> [] \<and> hd (drop 13 d) \<noteq> CHR ''.''
       \<and> slash_free (drop 13 d)) (dirs w))"

definition enrolled_users :: "world \<Rightarrow> string list" where
  "enrolled_users w = filter (\<lambda>u. is_file w (upass_path u)) (creds_entries w)"

lemma creds_entries_iff:
  "u \<in> set (creds_entries w) \<longleftrightarrow>
     ''/mail/.creds/'' @ u \<in> set (dirs w) \<and> u \<noteq> [] \<and> hd u \<noteq> CHR ''.'' \<and> slash_free u"
proof
  assume "u \<in> set (creds_entries w)"
  then obtain d where "d \<in> set (dirs w)" "prefix ''/mail/.creds/'' d" "u = drop 13 d"
      "u \<noteq> []" "hd u \<noteq> CHR ''.''" "slash_free u"
    by (auto simp: creds_entries_def)
  then show "''/mail/.creds/'' @ u \<in> set (dirs w) \<and> u \<noteq> [] \<and> hd u \<noteq> CHR ''.'' \<and> slash_free u"
    by (auto simp: prefix_def)
next
  assume a: "''/mail/.creds/'' @ u \<in> set (dirs w) \<and> u \<noteq> [] \<and> hd u \<noteq> CHR ''.'' \<and> slash_free u"
  then have "u = drop 13 (''/mail/.creds/'' @ u)" by simp
  with a show "u \<in> set (creds_entries w)"
    unfolding creds_entries_def set_map by (intro image_eqI) auto
qed

lemma enrolled_users_iff:
  "u \<in> set (enrolled_users w) \<longleftrightarrow> u \<in> set (creds_entries w) \<and> is_file w (upass_path u)"
  by (simp add: enrolled_users_def conj_commute)

lemma enrolled_users_plain: "u \<in> set (enrolled_users w) \<Longrightarrow> plain_user u"
  by (simp add: enrolled_users_iff creds_entries_iff plain_user_def)

text \<open>De-enrolling removes exactly this user from the enrolled ones.\<close>

lemma enrolled_users_deauth:
  assumes "plain_user e"
  shows "enrolled_users (deauth e w) = filter (\<lambda>u. u \<noteq> e) (enrolled_users w)"
proof -
  have "creds_entries (deauth e w) = creds_entries w" by (simp add: creds_entries_def)
  moreover have "is_file (deauth e w) (upass_path u) \<longleftrightarrow> is_file w (upass_path u) \<and> u \<noteq> e"
    if "u \<in> set (creds_entries w)" for u
  proof -
    have "plain_user u" using that by (simp add: creds_entries_iff plain_user_def)
    then show ?thesis
      using assms by (auto simp: is_file_def files_deauth upass_path_plain [symmetric] path_simps)
  qed
  ultimately show ?thesis
    unfolding enrolled_users_def filter_filter by (auto intro: filter_cong)
qed

text \<open>The response data of LIST for a user, with the exceptions on the way.\<close>

definition fetch_list :: "imap_conn \<Rightarrow> string \<Rightarrow> string \<Rightarrow> list_item list result" where
  "fetch_list conn email pw =
     (case i_connect conn of Some e \<Rightarrow> Inl e
      | None \<Rightarrow> (case i_login conn (upstream_user email) pw of Some e \<Rightarrow> Inl e
          | None \<Rightarrow> (case i_list conn of Inl e \<Rightarrow> Inl e | Inr (typ, data) \<Rightarrow> Inr data)))"

text \<open>A server that answers LIST with these lines, for the examples.\<close>

definition list_server :: "list_item list \<Rightarrow> imap_conn" where
  "list_server lines = \<lparr>i_connect = None, i_login = (\<lambda>u p. None), i_list = Inr (''OK'', lines)\<rparr>"

definition refusing_server :: imap_conn where
  "refusing_server = \<lparr>i_connect = None, i_login = (\<lambda>u p. None),
     i_list = Inr (''NO'', [Line ''Server Unavailable''])\<rparr>"

lemma fetch_list_server [simp]: "fetch_list (list_server lines) u p = Inr lines"
  by (simp add: fetch_list_def list_server_def)

lemma enrolled_users_box: "enrolled_users enrolled_box = [''a@b'']"
  by (simp add: enrolled_users_def creds_entries_def enrolled_box_def is_file_def slash_free_def upass_path_def)

lemmas eval_list = strip_bytes_def strip_by_def byte_space_def match_list_def find_elem_append spaces1_def
  match_sep_def match_name_def unquote_def suffix_def ascii_replace_def split_space_def Let_def

end
