(* ===== verification/SpecialUse.thy ===== *)
theory SpecialUse
  imports Upstream "HOL-Library.List_Lexorder"
begin

text \<open>
  \<open>mail/special_use.py\<close>: the university's own SPECIAL-USE roles of its folders are read from a
  LIST response and written as a Dovecot include.  The include is its text as code points, or
  \<open>None\<close> while the file does not exist; \<open>main\<close> returns the exit status with the include after it.
\<close>

definition ROLE_FLAGS :: "nat list list" where
  "ROLE_FLAGS = map (\<lambda>r. 92 # lit r)
     [''Sent'', ''Drafts'', ''Trash'', ''Junk'', ''Archive'', ''All'', ''Flagged'']"

text \<open>Dictionaries keep insertion order, as association lists do under \<^const>\<open>AList.update\<close>.\<close>

type_synonym role_map = "(folder \<times> nat list) list"

definition role_of :: "nat list list \<Rightarrow> nat list option" where
  "role_of flags = find (\<lambda>f. f \<in> set ROLE_FLAGS) flags"

fun collect_roles :: "listed list \<Rightarrow> role_map \<Rightarrow> role_map" where
  "collect_roles [] m = m"
| "collect_roles ((name, flags, sep) # xs) m =
     collect_roles xs (case role_of flags of None \<Rightarrow> m | Some r \<Rightarrow> AList.update name r m)"

definition discover :: "crypto \<Rightarrow> imap_conn \<Rightarrow> string \<Rightarrow> world \<Rightarrow> role_map result" where
  "discover cr conn email w =
     (case read_password cr w email of Inl e \<Rightarrow> Inl e
      | Inr pw \<Rightarrow>
          (case fetch_list conn email pw of Inl e \<Rightarrow> Inl e
           | Inr lines \<Rightarrow>
               (case parse_list lines of Inl e \<Rightarrow> Inl e | Inr xs \<Rightarrow> Inr (collect_roles xs []))))"

definition escape :: "folder \<Rightarrow> folder" where
  "escape name = replace_all [34] [92, 34] (replace_all [92] [92, 92] name)"

definition block :: "folder \<Rightarrow> nat list \<Rightarrow> nat list" where
  "block name role =
     lit ''mailbox '' @ [34] @ escape name @ [34] @ lit '' {'' @ [10] @ lit ''  special_use = '' @ role @ [10] @ lit ''}''"

definition header_lines :: "nat list list" where
  "header_lines = [lit (''# Auto-generated from the university'' @ [CHR 0x27] @ ''s own SPECIAL-USE flags.''),
     lit ''# Do not edit; regenerated by special_use.py.'', []]"

definition render :: "role_map \<Rightarrow> nat list" where
  "render m =
     (if m = [] then []
      else join [10] (header_lines
             @ map (\<lambda>name. block name (case map_of m name of None \<Rightarrow> [] | Some r \<Rightarrow> r)) (sort (map fst m)))
           @ [10])"

fun first_mapping ::
  "crypto \<Rightarrow> (string \<Rightarrow> imap_conn) \<Rightarrow> world \<Rightarrow> string list \<Rightarrow> role_map option result" where
  "first_mapping cr conns w [] = Inr None"
| "first_mapping cr conns w (u # us) =
     (case discover cr (conns u) u w of
        Inr m \<Rightarrow> Inr (Some m)
      | Inl e \<Rightarrow> if is_exception e then first_mapping cr conns w us else Inl e)"

definition special_main ::
  "crypto \<Rightarrow> (string \<Rightarrow> imap_conn) \<Rightarrow> world \<Rightarrow> nat list option \<Rightarrow> int result \<times> nat list option" where
  "special_main cr conns w out =
     (if enrolled_users w = [] then (Inr 1, out)
      else (case first_mapping cr conns w (enrolled_users w) of
              Inl e \<Rightarrow> (Inl e, out)
            | Inr None \<Rightarrow> (Inr 1, out)
            | Inr (Some m) \<Rightarrow>
                (if Some (render m) \<noteq> out then (Inr 10, Some (render m)) else (Inr 0, out))))"

subsection \<open>Properties\<close>

text \<open>Dovecot's reading of a quoted string: a backslash takes the next character literally.\<close>

fun unescape :: "folder \<Rightarrow> folder" where
  "unescape [] = []"
| "unescape [c] = [c]"
| "unescape (c # d # r) = (if c = 92 then d # unescape r else c # unescape (d # r))"

definition escape_char :: "nat \<Rightarrow> nat list" where
  "escape_char c = (if c = 92 \<or> c = 34 then [92, c] else [c])"

lemma escape_concat: "escape name = concat (map escape_char name)"
  unfolding escape_def replace_all_single
  by (induction name) (auto simp: escape_char_def)

lemma unescape_escape: "unescape (escape name) = name"
proof -
  have "unescape (c # s) = c # unescape s" if "c \<noteq> 92" for c s
    using that by (cases s) auto
  then show ?thesis
    unfolding escape_concat by (induction name) (auto simp: escape_char_def)
qed

text \<open>A quote that closes the string: the first one not taken literally.\<close>

fun closing_quote :: "folder \<Rightarrow> nat option" where
  "closing_quote [] = None"
| "closing_quote (c # r) =
     (if c = 34 then Some 0
      else if c = 92 then (case r of [] \<Rightarrow> None | d # r' \<Rightarrow> map_option (\<lambda>n. n + 2) (closing_quote r'))
      else map_option Suc (closing_quote r))"

lemma closing_quote_escape: "closing_quote (escape name @ 34 # r) = Some (length (escape name))"
  unfolding escape_concat by (induction name) (auto simp: escape_char_def)

text \<open>
  A folder name cannot break out of its quotes in the generated include, whatever quotes or
  backslashes it holds: read back, the string ends exactly where the name was printed, and its
  value is the name.
\<close>

theorem rendered_name_reads_back:
  "closing_quote (escape name @ 34 # rest) = Some (length (escape name)) \<and> unescape (escape name) = name"
  by (simp add: closing_quote_escape unescape_escape)

lemma collect_roles_map_of:
  "map_of (collect_roles xs m) name = Some r \<Longrightarrow>
   map_of m name = Some r \<or> (\<exists>flags sep. (name, flags, sep) \<in> set xs \<and> role_of flags = Some r)"
proof (induction xs m rule: collect_roles.induct)
  case (2 n fl sp xs m)
  then show ?case
    by (auto simp: update_conv split: option.splits if_splits)
qed simp

lemma role_of_Some: "role_of flags = Some r \<Longrightarrow> r \<in> set flags \<and> r \<in> set ROLE_FLAGS"
  by (auto simp: role_of_def find_Some_iff in_set_conv_nth)

lemma collect_roles_complete:
  "(name, flags, sep) \<in> set xs \<Longrightarrow> role_of flags \<noteq> None \<Longrightarrow> map_of (collect_roles xs m) name \<noteq> None"
proof (induction xs m rule: collect_roles.induct)
  case (2 n fl sp xs m)
  have keep: "map_of m' k \<noteq> None \<Longrightarrow> map_of (collect_roles ys m') k \<noteq> None" for ys m' k
    by (induction ys m' rule: collect_roles.induct) (auto simp: update_conv split: option.splits)
  from 2(2) show ?case
  proof (cases "(name, flags, sep) = (n, fl, sp)")
    case True
    with 2(3) obtain r where "role_of fl = Some r" by auto
    then show ?thesis using True keep [of "AList.update n r m" n xs] by (simp add: update_conv')
  next
    case False
    with 2 show ?thesis by auto
  qed
qed simp

text \<open>
  The roles come from the university alone: a folder is tagged with a role only if a LIST
  line for exactly this folder carried that flag and it is one of the mirrored roles, and
  every listed folder with such a flag gets a role.
\<close>

theorem discovered_roles:
  assumes "discover cr conn email w = Inr m" "read_password cr w email = Inr pw"
    "fetch_list conn email pw = Inr lines" "parse_list lines = Inr xs"
  shows "(\<forall>name r. map_of m name = Some r \<longrightarrow>
      r \<in> set ROLE_FLAGS \<and> (\<exists>flags sep. (name, flags, sep) \<in> set xs \<and> r \<in> set flags)) \<and>
    (\<forall>name flags sep f. (name, flags, sep) \<in> set xs \<and> f \<in> set flags \<and> f \<in> set ROLE_FLAGS \<longrightarrow> map_of m name \<noteq> None)"
proof -
  have m: "m = collect_roles xs []" using assms by (simp add: discover_def)
  have "role_of flags \<noteq> None" if "f \<in> set flags" "f \<in> set ROLE_FLAGS" for f flags
    using that by (auto simp: role_of_def find_None_iff)
  then show ?thesis
    unfolding m using role_of_Some collect_roles_map_of [of xs "[]"] collect_roles_complete
    by (metis (no_types, lifting) map_of.simps(1) option.distinct(1))
qed

text \<open>
  The include converges: a run that finds the roles leaves the include equal to their
  rendering, a second run with the same answers changes nothing and reports it (status 0), and a
  run that finds none (status 1) leaves it as it was.
\<close>

theorem special_use_idempotent:
  assumes "special_main cr conns w out = (Inr code, out')"
  shows "code \<in> {0, 1, 10} \<and> (code = 1 \<longrightarrow> out' = out) \<and>
    (code \<noteq> 1 \<longrightarrow> (code = 10 \<longleftrightarrow> out' \<noteq> out) \<and> special_main cr conns w out' = (Inr 0, out'))"
  using assms
  by (auto simp: special_main_def split: if_splits sum.splits option.splits)

theorem special_use_idempotent_witness:
  "special_main toy_crypto (\<lambda>u. list_server []) enrolled_box (Some []) = (Inr 0, Some [])"
  using special_use_idempotent [of toy_crypto "\<lambda>u. list_server []" enrolled_box None 10 "Some []"]
  by (simp add: special_main_def enrolled_users_box discover_def read_password_enrolled_box render_def)

definition sent_line :: list_item where
  "sent_line = Line (''('' @ [CHR 0x5C] @ ''Sent) NIL Out'')"

lemma parse_sent_line: "parse_list [sent_line] = Inr [(lit ''Out'', [92 # lit ''Sent''], [])]"
  by (simp add: sent_line_def eval_list lit_def)

theorem discovered_roles_witness:
  "map_of [(lit ''Out'', 92 # lit ''Sent'')] (lit ''Out'') = Some (92 # lit ''Sent'') \<longrightarrow>
     92 # lit ''Sent'' \<in> set ROLE_FLAGS"
proof -
  have "discover toy_crypto (list_server [sent_line]) ''a@b'' enrolled_box = Inr [(lit ''Out'', 92 # lit ''Sent'')]"
    by (simp add: discover_def read_password_enrolled_box parse_sent_line role_of_def ROLE_FLAGS_def lit_def)
  from discovered_roles [OF this read_password_enrolled_box fetch_list_server parse_sent_line]
  show ?thesis by blast
qed

end
