(* ===== verification/SyncEngine.thy ===== *)
theory SyncEngine
  imports Upstream "HOL-Library.Multiset"
begin

text \<open>
  \<open>mail/sync.py\<close>: reconciling one user's local Maildir with the university.

  A \<open>store\<close> is what the script sees of one user: the entries of the Maildir root (raw names as
  \<open>os.listdir\<close> gives them; \<open>None\<close> while it does not exist), each a folder with its mail or
  something else, and the folders under \<open>stale-folders\<close> by their path there.  The mail of a folder
  is opaque (type \<open>'m\<close>).  Parameters: the IMAP session, \<open>mv_err\<close> (which folders \<open>shutil.move\<close>
  cannot move, by raw name), and \<open>mbsync\<close>, the external program, which gets the config text, the
  channel and the password in its environment and returns how it ended.  The trace of a run
  lists the calls of \<open>mbsync\<close>.
\<close>

datatype 'm dirent = Folder 'm | OtherEntry

record 'm store =
  maildir :: "(folder \<times> 'm dirent) list option"
  stale_folders :: "(folder \<times> 'm) list"

record config =
  cf_server :: string
  cf_mode :: string
  cf_patterns :: string
  cf_maxmsg :: string

subsection \<open>The mbsync configuration\<close>

definition nl :: string where "nl = [CHR 0x0A]"

definition mbsyncrc :: "config \<Rightarrow> string \<Rightarrow> string \<Rightarrow> string" where
  "mbsyncrc cf email md =
     (let maxmsg = (if cf_maxmsg cf \<noteq> [] \<and> cf_maxmsg cf \<noteq> ''0''
                    then ''MaxMessages '' @ cf_maxmsg cf @ nl @ ''ExpireUnread no'' @ nl else [])
      in nl @ ''IMAPAccount uni'' @ nl
       @ ''Host '' @ cf_server cf @ nl
       @ ''Port 993'' @ nl
       @ ''User bzedvz'' @ [CHR 0x5C, CHR 0x5C] @ email @ nl
       @ ''PassCmd '' @ [CHR 0x22] @ ''printenv UNI_PW'' @ [CHR 0x22] @ nl
       @ ''SSLType IMAPS'' @ nl
       @ ''SystemCertificates yes'' @ nl
       @ ''AuthMechs LOGIN'' @ nl @ nl
       @ ''IMAPStore uni-remote'' @ nl
       @ ''Account uni'' @ nl @ nl
       @ ''MaildirStore uni-local'' @ nl
       @ ''Inbox '' @ md @ ''/'' @ nl
       @ ''SubFolders Maildir++'' @ nl @ nl
       @ ''Channel uni'' @ nl
       @ ''Far :uni-remote:'' @ nl
       @ ''Near :uni-local:'' @ nl
       @ ''Patterns '' @ cf_patterns cf @ nl
       @ ''Create Near'' @ nl
       @ ''Expunge Both'' @ nl
       @ maxmsg @ ''Sync '' @ cf_mode cf @ nl
       @ ''SyncState *'' @ nl)"

subsection \<open>Far and local folders\<close>

text \<open>\<open>name.replace(sep, ".") if sep else name\<close>, collected in a set.\<close>

definition far_side_folders :: "imap_conn \<Rightarrow> string \<Rightarrow> string \<Rightarrow> folder list result" where
  "far_side_folders conn email pw =
     (case fetch_list conn email pw of Inl e \<Rightarrow> Inl e
      | Inr lines \<Rightarrow>
          (case parse_list lines of Inl e \<Rightarrow> Inl e
           | Inr xs \<Rightarrow> Inr (map (\<lambda>(name, flags, sep). if sep \<noteq> [] then replace_all sep [46] name else name) xs)))"

text \<open>Pairs of the decoded name and the raw name without its dot.\<close>

fun subfolders :: "(folder \<times> 'm dirent) list \<Rightarrow> (folder \<times> folder) list result" where
  "subfolders [] = Inr []"
| "subfolders ((name, ent) # xs) =
     (if prefix [46] name \<and> ent \<noteq> OtherEntry then
        (case imap_utf7_decode (tl name) of
           Inl e \<Rightarrow> Inl e
         | Inr d \<Rightarrow> prepend [(d, tl name)] (subfolders xs))
      else subfolders xs)"

definition local_subfolders :: "'m store \<Rightarrow> (folder \<times> folder) list result" where
  "local_subfolders st = (case maildir st of None \<Rightarrow> Inl FileNotFoundError | Some es \<Rightarrow> subfolders es)"

subsection \<open>Quarantine\<close>

text \<open>
  \<open>shutil.move(src, dst)\<close>: onto an existing directory it moves into it, and fails if that name is
  taken too; every failure is an \<open>OSError\<close>, which the loop logs and passes over.
\<close>

definition move_target :: "folder \<Rightarrow> folder \<Rightarrow> (folder \<times> 'm) list \<Rightarrow> folder option" where
  "move_target dst raw q =
     (if dst \<notin> fst ` set q then Some dst
      else if dst @ [47, 46] @ raw \<notin> fst ` set q then Some (dst @ [47, 46] @ raw)
      else None)"

definition move_folder :: "(folder \<Rightarrow> bool) \<Rightarrow> folder \<Rightarrow> folder \<times> folder \<Rightarrow> 'm store \<Rightarrow> 'm store" where
  "move_folder mv_err ts dr st =
     (case dr of (decoded, raw) \<Rightarrow>
       (case maildir st of None \<Rightarrow> st
        | Some es \<Rightarrow>
            (case (if mv_err raw then None else map_of es (46 # raw),
                   move_target (decoded @ [45] @ ts) raw (stale_folders st)) of
               (Some (Folder m), Some dst) \<Rightarrow>
                 st\<lparr>maildir := Some (filter (\<lambda>e. fst e \<noteq> 46 # raw) es),
                    stale_folders := stale_folders st @ [(dst, m)]\<rparr>
             | _ \<Rightarrow> st)))"

definition INBOX :: folder where
  "INBOX = [73, 78, 66, 79, 88]"

definition stale_of :: "folder list \<Rightarrow> (folder \<times> folder) list \<Rightarrow> (folder \<times> folder) list" where
  "stale_of far loc = filter (\<lambda>(decoded, raw). decoded \<notin> set far \<union> {INBOX}) loc"

definition quarantine_stale_folders ::
  "(folder \<Rightarrow> bool) \<Rightarrow> folder \<Rightarrow> folder list \<Rightarrow> 'm store \<Rightarrow> unit result \<times> 'm store" where
  "quarantine_stale_folders mv_err ts far st =
     (case local_subfolders st of
        Inl e \<Rightarrow> (if e = FileNotFoundError then Inr () else Inl e, st)
      | Inr loc \<Rightarrow> (Inr (), fold (move_folder mv_err ts) (stale_of far loc) st))"

subsection \<open>sync_user\<close>

datatype mb_end = Exited int string string | TimedOut

type_synonym mb_call = "string \<times> string \<times> string"

type_synonym 'm mbsync = "string \<Rightarrow> string \<Rightarrow> string \<Rightarrow> 'm store \<Rightarrow> mb_end \<times> 'm store"

definition auth_failure :: "string \<Rightarrow> bool" where
  "auth_failure err =
     (let low = lower err in
      sublist ''authenticationfailed'' low \<or> sublist ''authentication failed'' low \<or> sublist ''login failed'' low)"

definition check_stale ::
  "(folder \<Rightarrow> bool) \<Rightarrow> folder \<Rightarrow> imap_conn \<Rightarrow> string \<Rightarrow> string \<Rightarrow> 'm store \<Rightarrow> 'm store" where
  "check_stale mv_err ts conn email pw st =
     (case far_side_folders conn email pw of
        Inl e \<Rightarrow> st
      | Inr far \<Rightarrow> snd (quarantine_stale_folders mv_err ts far st))"

definition sync_user ::
  "crypto \<Rightarrow> config \<Rightarrow> (folder \<Rightarrow> bool) \<Rightarrow> folder \<Rightarrow> imap_conn \<Rightarrow> 'm mbsync \<Rightarrow> string \<Rightarrow> string option
     \<Rightarrow> world \<times> 'm store \<Rightarrow> mb_call list \<times> world \<times> 'm store" where
  "sync_user cr cf mv_err ts conn mbsync email boxes ws =
     (case ws of (w, st) \<Rightarrow>
      (case read_password cr w email of
         Inl e \<Rightarrow> ([], w, st)
       | Inr pw \<Rightarrow>
          (let md = ''/mail/'' @ email @ ''/Maildir'';
               st1 = st\<lparr>maildir := Some (case maildir st of None \<Rightarrow> [] | Some es \<Rightarrow> es)\<rparr>;
               st2 = (if boxes = None then check_stale mv_err ts conn email pw st1 else st1);
               cfg = mbsyncrc cf email md;
               channel = (case boxes of None \<Rightarrow> ''uni'' | Some b \<Rightarrow> if b = [] then ''uni'' else ''uni:'' @ b)
           in case mbsync cfg channel pw st2 of
                (TimedOut, st3) \<Rightarrow> ([(cfg, channel, pw)], w, st3)
              | (Exited rc out err, st3) \<Rightarrow>
                  ([(cfg, channel, pw)],
                   if rc \<noteq> 0 \<and> auth_failure (strip (if err \<noteq> [] then err else out)) then deauth email w else w,
                   st3))))"

subsection \<open>What quarantine does to a store\<close>

definition wf_store :: "'m store \<Rightarrow> bool" where
  "wf_store st \<longleftrightarrow> (case maildir st of None \<Rightarrow> True | Some es \<Rightarrow> distinct (map fst es))"

fun dirent_mail :: "'m dirent \<Rightarrow> 'm multiset" where
  "dirent_mail (Folder m) = {#m#}"
| "dirent_mail OtherEntry = {#}"

definition all_mail :: "'m store \<Rightarrow> 'm multiset" where
  "all_mail st =
     (case maildir st of None \<Rightarrow> {#} | Some es \<Rightarrow> \<Sum>\<^sub># (mset (map (dirent_mail \<circ> snd) es)))
     + mset (map snd (stale_folders st))"

definition entry_of :: "'m store \<Rightarrow> folder \<Rightarrow> 'm dirent option" where
  "entry_of st name = (case maildir st of None \<Rightarrow> None | Some es \<Rightarrow> map_of es name)"

text \<open>One move: nothing, or the folder leaves the Maildir for a free name in the quarantine.\<close>

lemma move_folder_cases:
  obtains (stays) "move_folder mv_err ts (d, raw) st = st"
      "entry_of st (46 # raw) \<noteq> None \<Longrightarrow> entry_of st (46 # raw) \<noteq> Some OtherEntry \<Longrightarrow>
         mv_err raw \<or> move_target (d @ [45] @ ts) raw (stale_folders st) = None"
  | (moves) es m dst where "maildir st = Some es" "map_of es (46 # raw) = Some (Folder m)"
      "move_folder mv_err ts (d, raw) st =
        st\<lparr>maildir := Some (filter (\<lambda>e. fst e \<noteq> 46 # raw) es), stale_folders := stale_folders st @ [(dst, m)]\<rparr>"
  by (cases "maildir st"; cases "mv_err raw"; cases "map_of (the (maildir st)) (46 # raw)";
      cases "move_target (d @ [45] @ ts) raw (stale_folders st)"; cases "the (map_of (the (maildir st)) (46 # raw))")
    (auto simp: move_folder_def entry_of_def)

lemma map_of_filter_key: "map_of (filter (\<lambda>e. fst e \<noteq> k) es) n = (if n = k then None else map_of es n)"
  by (induction es) auto

lemma mail_filter_key:
  "distinct (map fst es) \<Longrightarrow> map_of es k = Some (Folder m) \<Longrightarrow>
   \<Sum>\<^sub># (mset (map (dirent_mail \<circ> snd) es)) =
   add_mset m (\<Sum>\<^sub># (mset (map (dirent_mail \<circ> snd) (filter (\<lambda>e. fst e \<noteq> k) es))))"
proof (induction es)
  case (Cons e es)
  show ?case
  proof (cases "fst e = k")
    case True
    from True Cons.prems(2) have "snd e = Folder m" by (cases e) simp
    moreover from True Cons.prems(1) have "\<forall>x\<in>set es. fst x \<noteq> k" 
      by (metis distinct.simps(2) imageI list.simps(9) set_map)
    ultimately have "\<forall>x\<in>set es. fst x \<noteq> k" "snd e = Folder m" by simp_all
    with True show ?thesis by simp
  qed (use Cons in auto)
qed simp

lemma distinct_filter_fst: "distinct (map fst es) \<Longrightarrow> distinct (map fst (filter P es))"
  by (induction es) auto

lemma move_folder_wf:
  assumes "wf_store st"
  shows "wf_store (move_folder mv_err ts dr st) \<and> all_mail (move_folder mv_err ts dr st) = all_mail st"
proof (cases dr)
  case (Pair d raw)
  show ?thesis
  proof (cases rule: move_folder_cases [of mv_err ts d raw st])
    case (moves es m dst)
    with assms have "distinct (map fst es)" by (simp add: wf_store_def)
    with moves(1,3) mail_filter_key [OF this moves(2)] show ?thesis
      by (simp add: Pair wf_store_def all_mail_def distinct_filter_fst)
  qed (use assms Pair in simp)
qed

lemma fold_move_wf:
  "wf_store st \<Longrightarrow> wf_store (fold (move_folder mv_err ts) drs st) \<and> all_mail (fold (move_folder mv_err ts) drs st) = all_mail st"
proof (induction drs arbitrary: st)
  case (Cons dr drs)
  then show ?case using move_folder_wf [OF Cons.prems, of mv_err ts dr] by simp
qed simp

lemma entry_move_folder:
  "entry_of (move_folder mv_err ts (d, raw) st) n = entry_of st n \<or>
   n = 46 # raw \<and> entry_of (move_folder mv_err ts (d, raw) st) n = None"
  by (cases rule: move_folder_cases [of mv_err ts d raw st]) (auto simp: entry_of_def map_of_filter_key)

lemma entry_fold_move:
  "entry_of (fold (move_folder mv_err ts) drs st) n \<noteq> entry_of st n \<Longrightarrow>
   entry_of (fold (move_folder mv_err ts) drs st) n = None \<and> n \<in> (\<lambda>dr. 46 # snd dr) ` set drs"
proof (induction drs arbitrary: st)
  case (Cons dr drs)
  then show ?case
    using entry_move_folder [of mv_err ts "fst dr" "snd dr" st n]
      entry_move_folder [of mv_err ts "fst dr" "snd dr" st n]
    by (cases "entry_of (fold (move_folder mv_err ts) drs (move_folder mv_err ts dr st)) n
          = entry_of (move_folder mv_err ts dr st) n") auto
qed simp

lemma stale_move_mono: "set (stale_folders st) \<subseteq> set (stale_folders (move_folder mv_err ts dr st))"
  by (cases dr; cases rule: move_folder_cases [of mv_err ts "fst dr" "snd dr" st]) auto

lemma stale_fold_mono: "set (stale_folders st) \<subseteq> set (stale_folders (fold (move_folder mv_err ts) drs st))"
proof (induction drs arbitrary: st)
  case (Cons dr drs)
  then show ?case using stale_move_mono [of st mv_err ts dr] by fastforce
qed simp

text \<open>Both names a folder could get in the quarantine are taken.\<close>

definition blocked :: "folder \<Rightarrow> folder \<times> folder \<Rightarrow> 'm store \<Rightarrow> bool" where
  "blocked ts dr st \<longleftrightarrow> move_target (fst dr @ [45] @ ts) (snd dr) (stale_folders st) = None"

lemma blocked_mono: "set (stale_folders st) \<subseteq> set (stale_folders st') \<Longrightarrow> blocked ts dr st \<Longrightarrow> blocked ts dr st'"
  by (auto simp: blocked_def move_target_def split: if_splits)

lemma fold_move_clears:
  assumes "dr \<in> set drs" "entry_of st (46 # snd dr) \<noteq> Some OtherEntry"
  shows "entry_of (fold (move_folder mv_err ts) drs st) (46 # snd dr) = None \<or> mv_err (snd dr)
    \<or> blocked ts dr (fold (move_folder mv_err ts) drs st)"
  using assms
proof (induction drs arbitrary: st)
  case (Cons x drs)
  let ?st1 = "move_folder mv_err ts x st"
  have keep: "entry_of ?st1 (46 # snd dr) = entry_of st (46 # snd dr) \<or> entry_of ?st1 (46 # snd dr) = None"
    using entry_move_folder [of mv_err ts "fst x" "snd x" st "46 # snd dr"] by auto
  show ?case
  proof (cases "dr \<in> set drs")
    case True
    with Cons.IH [of ?st1] keep Cons.prems(2) show ?thesis by auto
  next
    case False
    with Cons.prems(1) have x: "x = dr" by simp
    have "entry_of ?st1 (46 # snd dr) = None \<or> mv_err (snd dr) \<or> blocked ts dr ?st1"
      using Cons.prems(2) unfolding x
      by (cases dr; cases rule: move_folder_cases [of mv_err ts "fst dr" "snd dr" st])
        (auto simp: entry_of_def map_of_filter_key blocked_def)
    then show ?thesis
      using entry_fold_move [of mv_err ts drs ?st1 "46 # snd dr"]
        blocked_mono [OF stale_fold_mono, of ts dr ?st1 mv_err ts drs]
      by auto
  qed
qed simp

lemma subfolders_sound:
  "subfolders es = Inr loc \<Longrightarrow> (d, raw) \<in> set loc \<Longrightarrow>
   imap_utf7_decode raw = Inr d \<and> (\<exists>m. (46 # raw, Folder m) \<in> set es)"
proof (induction es arbitrary: loc)
  case (Cons e es)
  obtain name ent where e: "e = (name, ent)" by fastforce
  show ?case
  proof (cases "prefix [46] name \<and> ent \<noteq> OtherEntry")
    case True
    then obtain r m where [simp]: "name = 46 # r" "ent = Folder m" by (cases ent) (auto simp: prefix_def)
    from Cons.prems(1) e obtain d' loc' where "imap_utf7_decode r = Inr d'" "subfolders es = Inr loc'" "loc = (d', r) # loc'"
      by (auto simp: prepend_def split: sum.splits)
    with Cons e show ?thesis by auto
  next
    case False
    with Cons e show ?thesis by auto
  qed
qed simp

lemma subfolders_complete:
  "subfolders es = Inr loc \<Longrightarrow> (46 # raw, Folder m) \<in> set es \<Longrightarrow> \<exists>d. (d, raw) \<in> set loc"
proof (induction es arbitrary: loc)
  case (Cons e es)
  then show ?case
    by (cases e) (fastforce simp: prepend_def split: sum.splits if_splits)
qed simp

lemma quarantine_cases:
  assumes "maildir st = Some es" "subfolders es = Inr loc"
  shows "quarantine_stale_folders mv_err ts far st = (Inr (), fold (move_folder mv_err ts) (stale_of far loc) st)"
  using assms by (simp add: quarantine_stale_folders_def local_subfolders_def)

text \<open>
  C19.  Quarantine never loses or duplicates mail: the folders of the Maildir and of the quarantine
  together hold the same mail before and after, whatever the university lists, whatever moves
  fail, and also when the check itself raises.
\<close>

theorem quarantine_keeps_all_mail:
  assumes "wf_store st"
  shows "wf_store (snd (quarantine_stale_folders mv_err ts far st)) \<and>
    all_mail (snd (quarantine_stale_folders mv_err ts far st)) = all_mail st"
  using fold_move_wf [OF assms] assms
  by (simp add: quarantine_stale_folders_def split: sum.split)

text \<open>
  Quarantine touches nothing else: an entry of the Maildir whose name is not that of a stale
  folder is left as it was: the INBOX, every folder the university still lists, every entry
  that is no folder.
\<close>

theorem quarantine_keeps_live_folders:
  assumes "maildir st = Some es" "subfolders es = Inr loc"
    and "\<And>d. (d, raw) \<in> set loc \<Longrightarrow> d \<in> set far \<union> {INBOX}"
  shows "entry_of (snd (quarantine_stale_folders mv_err ts far st)) (46 # raw) = entry_of st (46 # raw)"
proof -
  have "46 # raw \<notin> (\<lambda>dr. 46 # snd dr) ` set (stale_of far loc)"
    using assms(3) by (fastforce simp: stale_of_def)
  then show ?thesis
    unfolding quarantine_cases [OF assms(1,2)] snd_conv using entry_fold_move by metis
qed

text \<open>
  Quarantine unblocks the sync: afterwards a folder the university does not list is gone from
  the Maildir, unless moving it failed or both its names in the quarantine are taken.
\<close>

theorem quarantine_clears_stale_folders:
  assumes "maildir st = Some es" "subfolders es = Inr loc" "wf_store st"
    and "(d, raw) \<in> set loc" "d \<notin> set far" "d \<noteq> INBOX" "\<not> mv_err raw"
    and "st' = snd (quarantine_stale_folders mv_err ts far st)" "\<not> blocked ts (d, raw) st'"
  shows "entry_of st' (46 # raw) = None"
proof -
  have "(d, raw) \<in> set (stale_of far loc)" using assms(4-6) by (auto simp: stale_of_def)
  moreover obtain m where "(46 # raw, Folder m) \<in> set es"
    using subfolders_sound [OF assms(2,4)] by blast
  then have "entry_of st (46 # raw) = Some (Folder m)"
    using assms(1,3) by (simp add: entry_of_def wf_store_def)
  ultimately show ?thesis
    using fold_move_clears [of "(d, raw)" "stale_of far loc" st mv_err ts] assms(7-9)
    by (simp add: quarantine_cases [OF assms(1,2)])
qed

definition sample_store :: "nat store" where
  "sample_store = \<lparr>maildir = Some [(lit ''cur'', Folder 1), (lit ''.Sent'', Folder 2), (lit ''.Trash'', Folder 3)],
     stale_folders = []\<rparr>"

lemma sample_subfolders:
  "subfolders [(lit ''cur'', Folder 1), (lit ''.Sent'', Folder 2), (lit ''.Trash'', Folder (3::nat))]
   = Inr [(lit ''Sent'', lit ''Sent''), (lit ''Trash'', lit ''Trash'')]"
  by (simp add: lit_def)

lemmas eval_quarantine = quarantine_stale_folders_def local_subfolders_def sample_store_def sample_subfolders
  stale_of_def move_folder_def move_target_def blocked_def

lemma wf_sample: "wf_store sample_store"
  by (simp add: wf_store_def sample_store_def lit_def)

theorem quarantine_keeps_all_mail_witness:
  "all_mail (snd (quarantine_stale_folders (\<lambda>_. False) (lit ''7'') [lit ''Trash''] sample_store)) = {#1, 2, 3#}"
  using quarantine_keeps_all_mail [OF wf_sample, of "\<lambda>_. False" "lit ''7''" "[lit ''Trash'']"]
  by (simp add: all_mail_def sample_store_def)

theorem quarantine_keeps_live_folders_witness:
  "entry_of (snd (quarantine_stale_folders (\<lambda>_. False) (lit ''7'') [lit ''Trash''] sample_store)) (46 # lit ''Trash'')
     = Some (Folder 3)"
proof -
  have "maildir sample_store = Some [(lit ''cur'', Folder 1), (lit ''.Sent'', Folder 2), (lit ''.Trash'', Folder 3)]"
    by (simp add: sample_store_def)
  from quarantine_keeps_live_folders [OF this sample_subfolders, of "lit ''Trash''" "[lit ''Trash'']"]
  show ?thesis by (auto simp: sample_store_def entry_of_def lit_def)
qed

theorem quarantine_clears_stale_folders_witness:
  "entry_of (snd (quarantine_stale_folders (\<lambda>_. False) (lit ''7'') [lit ''Trash''] sample_store)) (46 # lit ''Sent'') = None"
proof -
  have "maildir sample_store = Some [(lit ''cur'', Folder 1), (lit ''.Sent'', Folder 2), (lit ''.Trash'', Folder 3)]"
    by (simp add: sample_store_def)
  moreover have "\<not> blocked (lit ''7'') (lit ''Sent'', lit ''Sent'')
      (snd (quarantine_stale_folders (\<lambda>_. False) (lit ''7'') [lit ''Trash''] sample_store))"
    by (simp add: eval_quarantine lit_def INBOX_def)
  ultimately show ?thesis
    by (intro quarantine_clears_stale_folders [OF _ sample_subfolders wf_sample, of "lit ''Sent''" _ "[lit ''Trash'']", OF _ _ _ _ _ refl])
      (simp_all add: lit_def INBOX_def)
qed

text \<open>
  A LIST the server refuses is taken for an empty list of folders.  \<open>imaplib\<close> does not raise on
  a \<open>NO\<close>, its text is no LIST line, so the far side seems to have no folder and every local
  folder but the INBOX is moved away, although nothing was checked.
\<close>

theorem refused_list_quarantines_everything:
  "far_side_folders refusing_server email pw = Inr [] \<and>
   maildir (check_stale (\<lambda>_. False) (lit ''7'') refusing_server email pw sample_store) = Some [(lit ''cur'', Folder 1)] \<and>
   stale_folders (check_stale (\<lambda>_. False) (lit ''7'') refusing_server email pw sample_store)
     = [(lit ''Sent-7'', 2), (lit ''Trash-7'', 3)]"
proof -
  have "parse_list [Line ''Server Unavailable''] = Inr []"
    by (simp add: eval_list)
  then have far: "far_side_folders refusing_server email pw = Inr []"
    by (simp add: far_side_folders_def fetch_list_def refusing_server_def)
  then show ?thesis
    by (simp add: check_stale_def eval_quarantine lit_def INBOX_def)
qed

text \<open>How \<open>mbsync\<close> reports that the university rejected the login.\<close>

definition login_rejected :: "mb_end \<Rightarrow> bool" where
  "login_rejected r = (case r of TimedOut \<Rightarrow> False
     | Exited rc out err \<Rightarrow> rc \<noteq> 0 \<and> auth_failure (strip (if err \<noteq> [] then err else out)))"

definition prepared :: "(folder \<Rightarrow> bool) \<Rightarrow> folder \<Rightarrow> imap_conn \<Rightarrow> string \<Rightarrow> string \<Rightarrow> string option \<Rightarrow> 'm store \<Rightarrow> 'm store" where
  "prepared mv_err ts conn email pw boxes st =
     (let st1 = st\<lparr>maildir := Some (case maildir st of None \<Rightarrow> [] | Some es \<Rightarrow> es)\<rparr>
      in if boxes = None then check_stale mv_err ts conn email pw st1 else st1)"

definition channel_of :: "string option \<Rightarrow> string" where
  "channel_of boxes = (case boxes of None \<Rightarrow> ''uni'' | Some b \<Rightarrow> if b = [] then ''uni'' else ''uni:'' @ b)"

lemma sync_user_run:
  "sync_user cr cf mv_err ts conn mbsync email boxes (w, st) =
    (case read_password cr w email of
       Inl e \<Rightarrow> ([], w, st)
     | Inr pw \<Rightarrow>
        (let cfg = mbsyncrc cf email (''/mail/'' @ email @ ''/Maildir'');
             r = mbsync cfg (channel_of boxes) pw (prepared mv_err ts conn email pw boxes st)
         in ([(cfg, channel_of boxes, pw)], if login_rejected (fst r) then deauth email w else w, snd r)))"
  by (auto simp: sync_user_def prepared_def channel_of_def login_rejected_def Let_def
      split: sum.split prod.split mb_end.split)

lemma check_stale_wf:
  "wf_store st \<Longrightarrow> wf_store (check_stale mv_err ts conn email pw st) \<and> all_mail (check_stale mv_err ts conn email pw st) = all_mail st"
  using fold_move_wf by (fastforce simp: check_stale_def quarantine_stale_folders_def split: sum.split)

lemma prepared_wf:
  "wf_store st \<Longrightarrow> wf_store (prepared mv_err ts conn email pw boxes st) \<and> all_mail (prepared mv_err ts conn email pw boxes st) = all_mail st"
  using check_stale_wf [of "st\<lparr>maildir := Some (case maildir st of None \<Rightarrow> [] | Some es \<Rightarrow> es)\<rparr>" mv_err ts conn email pw]
  by (auto simp: prepared_def Let_def wf_store_def all_mail_def split: option.splits)

text \<open>
  One sync runs \<open>mbsync\<close> at most once, on a store that still holds all the mail, with the
  password the stored secret decrypts to and the config of this user's Maildir; credentials
  change only if that run reported a rejected login, and then only this user's.
\<close>

theorem sync_user_effects:
  assumes "sync_user cr cf mv_err ts conn mbsync email boxes (w, st) = (calls, w', st')" "wf_store st"
  shows "length calls \<le> 1 \<and>
    (\<forall>cfg ch pw. (cfg, ch, pw) \<in> set calls \<longrightarrow> read_password cr w email = Inr pw \<and>
       cfg = mbsyncrc cf email (''/mail/'' @ email @ ''/Maildir'') \<and>
       (\<exists>st2. all_mail st2 = all_mail st \<and> snd (mbsync cfg ch pw st2) = st' \<and>
         (files w' \<noteq> files w \<longrightarrow> login_rejected (fst (mbsync cfg ch pw st2))))) \<and>
    (calls = [] \<longrightarrow> st' = st) \<and>
    (\<forall>q. files w' q \<noteq> files w q \<longrightarrow> calls \<noteq> [] \<and>
       q \<in> {cred_path email ''passhash'', cred_path email ''upass.enc'', cred_path email ''last_uni''})"
proof (cases "read_password cr w email")
  case (Inl e)
  with assms show ?thesis by (simp add: sync_user_run)
next
  case (Inr pw)
  have "all_mail (prepared mv_err ts conn email pw boxes st) = all_mail st"
    using prepared_wf [OF assms(2)] by blast
  with assms(1) Inr show ?thesis
    by (auto simp: sync_user_run Let_def files_deauth split: if_splits
        intro!: exI [of _ "prepared mv_err ts conn email pw boxes st"])
qed

definition rejecting_mbsync :: "nat mbsync" where
  "rejecting_mbsync cfg ch pw st = (Exited 1 [] ''IMAP command LOGIN returned an error: NO Login failed.'', st)"

definition sample_config :: config where
  "sample_config = \<lparr>cf_server = ''u'', cf_mode = ''All'', cf_patterns = ''*'', cf_maxmsg = ''0''\<rparr>"

theorem sync_user_effects_witness:
  "length (fst (sync_user toy_crypto sample_config (\<lambda>_. False) (lit ''7'') refusing_server rejecting_mbsync
     ''a@b'' None (enrolled_box, sample_store))) \<le> 1"
  by (cases "sync_user toy_crypto sample_config (\<lambda>_. False) (lit ''7'') refusing_server rejecting_mbsync
     ''a@b'' None (enrolled_box, sample_store)")
    (use sync_user_effects [OF _ wf_sample] in auto)

subsection \<open>The whole run\<close>

text \<open>
  \<open>main\<close>: the users are listed once, before the first sync.  Each user has its own store; the
  trace names the user of every call.
\<close>

fun sync_each ::
  "crypto \<Rightarrow> config \<Rightarrow> (string \<Rightarrow> folder \<Rightarrow> bool) \<Rightarrow> folder \<Rightarrow> (string \<Rightarrow> imap_conn) \<Rightarrow> (string \<Rightarrow> 'm mbsync)
     \<Rightarrow> string list \<Rightarrow> world \<times> (string \<Rightarrow> 'm store) \<Rightarrow> (string \<times> mb_call list) list \<times> world \<times> (string \<Rightarrow> 'm store)" where
  "sync_each cr cf mv_err ts conns mbsyncs [] ws = ([], ws)"
| "sync_each cr cf mv_err ts conns mbsyncs (u # us) (w, sts) =
     (case sync_user cr cf (mv_err u) ts (conns u) (mbsyncs u) u None (w, sts u) of
        (calls, w1, st1) \<Rightarrow>
          (case sync_each cr cf mv_err ts conns mbsyncs us (w1, sts(u := st1)) of
             (tr, ws2) \<Rightarrow> ((u, calls) # tr, ws2)))"

definition sync_main ::
  "crypto \<Rightarrow> config \<Rightarrow> (string \<Rightarrow> folder \<Rightarrow> bool) \<Rightarrow> folder \<Rightarrow> (string \<Rightarrow> imap_conn) \<Rightarrow> (string \<Rightarrow> 'm mbsync)
     \<Rightarrow> world \<times> (string \<Rightarrow> 'm store) \<Rightarrow> (string \<times> mb_call list) list \<times> world \<times> (string \<Rightarrow> 'm store)" where
  "sync_main cr cf mv_err ts conns mbsyncs ws =
     sync_each cr cf mv_err ts conns mbsyncs (enrolled_users (fst ws)) ws"

lemma sync_user_world:
  "sync_user cr cf mv_err ts conn mbsync u boxes (w, st) = (calls, w1, st1) \<Longrightarrow> w1 = w \<or> w1 = deauth u w"
  by (auto simp: sync_user_run Let_def split: sum.splits if_splits)

lemma sync_user_cong:
  assumes "read_password cr w u = read_password cr w' u"
  shows "fst (sync_user cr cf mv_err ts conn mbsync u boxes (w, st)) = fst (sync_user cr cf mv_err ts conn mbsync u boxes (w', st))"
    "snd (snd (sync_user cr cf mv_err ts conn mbsync u boxes (w, st))) = snd (snd (sync_user cr cf mv_err ts conn mbsync u boxes (w', st)))"
  using assms by (auto simp: sync_user_run Let_def split: sum.splits)

lemma read_password_deauth_other:
  assumes "plain_user u" "plain_user v" "u \<noteq> v"
  shows "read_password cr (deauth u w) v = read_password cr w v"
proof -
  have "files (deauth u w) q = files w q" if "q = MASTER_KEY_FILE \<or> q = upass_path v" for q
    using assms that upass_path_plain [OF assms(2)] by (auto simp: files_deauth path_simps cred_path_not_key [OF assms(1), THEN not_sym])
  then show ?thesis
    by (simp add: read_password_def decrypt_secret_def read_file_def split: option.split)
qed

text \<open>A sync of another user leaves what a later user's sync reads.\<close>

lemma sync_each_alone:
  assumes "distinct us" "\<forall>u\<in>set us. plain_user u" "\<forall>u\<in>set us. read_password cr w u = read_password cr w0 u"
    and "\<forall>u\<in>set us. sts u = sts0 u"
  shows "map_of (fst (sync_each cr cf mv_err ts conns mbsyncs us (w, sts))) u =
      (if u \<in> set us then Some (fst (sync_user cr cf (mv_err u) ts (conns u) (mbsyncs u) u None (w0, sts0 u))) else None)
    \<and> snd (snd (sync_each cr cf mv_err ts conns mbsyncs us (w, sts))) u =
      (if u \<in> set us then snd (snd (sync_user cr cf (mv_err u) ts (conns u) (mbsyncs u) u None (w0, sts0 u))) else sts u)"
  using assms
proof (induction us arbitrary: w sts)
  case (Cons v us)
  let ?r = "sync_user cr cf (mv_err v) ts (conns v) (mbsyncs v) v None (w, sts v)"
  obtain calls w1 st1 where r: "?r = (calls, w1, st1)" by (cases ?r)
  have "w1 = w \<or> w1 = deauth v w" using sync_user_world [OF r] .
  then have keep: "\<forall>u\<in>set us. read_password cr w1 u = read_password cr w0 u"
    using Cons.prems read_password_deauth_other by fastforce
  from r have "calls = fst ?r" "st1 = snd (snd ?r)" by simp_all
  then have one: "calls = fst (sync_user cr cf (mv_err v) ts (conns v) (mbsyncs v) v None (w0, sts0 v))"
      "st1 = snd (snd (sync_user cr cf (mv_err v) ts (conns v) (mbsyncs v) v None (w0, sts0 v)))"
    using Cons.prems(3,4) sync_user_cong [of cr w v w0 cf "mv_err v" ts "conns v" "mbsyncs v" None "sts0 v"]
    by simp_all
  have "\<forall>u\<in>set us. (sts(v := st1)) u = sts0 u" using Cons.prems(1,4) by auto
  obtain tr w2 sts2 where e: "sync_each cr cf mv_err ts conns mbsyncs us (w1, sts(v := st1)) = (tr, w2, sts2)"
    by (cases "sync_each cr cf mv_err ts conns mbsyncs us (w1, sts(v := st1))")
  from Cons.IH [OF _ _ keep \<open>\<forall>u\<in>set us. (sts(v := st1)) u = sts0 u\<close>] Cons.prems(1,2) show ?case
    unfolding e by (auto simp: r e one [symmetric])
qed simp



end
