(* ===== verification/IdleWatch.thy ===== *)
theory IdleWatch
  imports SyncEngine
begin

text \<open>
  \<open>mail/idle.py\<close>: the wait for an IMAP IDLE signal, the one-time folder subscription and the
  watcher of one user.

  A \<open>wire\<close> is the connection as \<open>_idle_wait\<close> sees it: the lines that will arrive, each with the
  seconds of silence before it (an empty line is the end of the stream; after the last one
  nothing ever arrives), the timeout of the socket, whether it has expired once, what was sent,
  and which sends fail.  \<open>conn.readline()\<close> reads through the buffered file \<open>imaplib\<close> made of the
  socket: a read that times out raises \<open>socket.timeout\<close> and from then on every read of that file
  raises \<open>OSError\<close> (\<open>SocketIO.readinto\<close>: "cannot read from timed out object"), whatever
  \<open>settimeout\<close> is set later.  A read that blocks for ever is the value \<open>None\<close>.
\<close>

subsection \<open>The connection\<close>

record wire =
  incoming :: "(rat \<times> string) list"
  sock_timeout :: "rat option"
  timed_out :: bool
  sent :: "string list"
  send_fails :: "string \<Rightarrow> bool"
  tagpre :: string
  tagnum :: nat

definition new_tag :: "wire \<Rightarrow> string \<times> wire" where
  "new_tag c = (tagpre c @ show_nat (tagnum c), c\<lparr>tagnum := Suc (tagnum c)\<rparr>)"

definition wire_send :: "string \<Rightarrow> wire \<Rightarrow> unit result \<times> wire" where
  "wire_send s c = (if send_fails c s then (Inl OSError, c) else (Inr (), c\<lparr>sent := sent c @ [s]\<rparr>))"

definition readline :: "wire \<Rightarrow> (string result \<times> wire) option" where
  "readline c =
     (if timed_out c then Some (Inl OSError, c)
      else case incoming c of
        [] \<Rightarrow> (case sock_timeout c of None \<Rightarrow> None
               | Some t \<Rightarrow> Some (Inl SocketTimeout, c\<lparr>timed_out := True\<rparr>))
      | (gap, l) # ls \<Rightarrow>
          (case sock_timeout c of
             None \<Rightarrow> Some (Inr l, if l = [] then c else c\<lparr>incoming := ls\<rparr>)
           | Some t \<Rightarrow>
               if t \<le> gap then Some (Inl SocketTimeout, c\<lparr>timed_out := True, incoming := (gap - t, l) # ls\<rparr>)
               else Some (Inr l, if l = [] then c else c\<lparr>incoming := ls\<rparr>)))"

definition settimeout :: "rat option \<Rightarrow> wire \<Rightarrow> wire" where
  "settimeout t c = c\<lparr>sock_timeout := t\<rparr>"

lemma readline_line:
  assumes "readline c = Some (Inr l, c')" "l \<noteq> []"
  shows "\<exists>gap. incoming c = (gap, l) # incoming c'" "\<not> timed_out c" "timed_out c' = timed_out c"
    "sent c' = sent c" "tagnum c' = tagnum c" "send_fails c' = send_fails c" "tagpre c' = tagpre c"
  using assms by (auto simp: readline_def split: if_splits list.splits option.splits)

lemma readline_shorter [termination_simp]:
  "readline c = Some (Inr l, c') \<Longrightarrow> l \<noteq> [] \<Longrightarrow> length (incoming c') < length (incoming c)"
  using readline_line(1) [of c l c'] by auto

lemma readline_raises:
  "readline c = Some (Inl e, c') \<Longrightarrow> e = SocketTimeout \<and> \<not> timed_out c \<and> sock_timeout c \<noteq> None \<and> timed_out c' \<or>
     e = OSError \<and> timed_out c \<and> c' = c"
  by (auto simp: readline_def split: if_splits list.splits option.splits)

lemma readline_eof:
  "readline c = Some (Inr [], c') \<Longrightarrow> c' = c \<and> \<not> timed_out c"
  by (auto simp: readline_def split: if_splits list.splits option.splits)

subsection \<open>Waiting for a change\<close>

definition signals :: "string \<Rightarrow> bool" where
  "signals line = (let up = upper_bytes line in sublist ''EXISTS'' up \<or> sublist ''RECENT'' up)"

function await_plus :: "string \<Rightarrow> wire \<Rightarrow> (unit result \<times> wire) option" where
  "await_plus tag c =
     (case readline c of
        None \<Rightarrow> None
      | Some (Inl e, c1) \<Rightarrow> Some (Inl e, c1)
      | Some (Inr resp, c1) \<Rightarrow>
          (if resp = [] then Some (Inl ImapAbort, c1)
           else if prefix ''+'' resp then Some (Inr (), c1)
           else if prefix tag resp then Some (Inl ImapAbort, c1)
           else await_plus tag c1))"
  by pat_completeness auto
termination by (relation "measure (\<lambda>(t, c). length (incoming c))") (auto simp: termination_simp)

function await_signal :: "wire \<Rightarrow> (bool result \<times> wire) option" where
  "await_signal c =
     (case readline c of
        None \<Rightarrow> None
      | Some (Inl e, c1) \<Rightarrow> Some (if e = SocketTimeout then Inr False else Inl e, c1)
      | Some (Inr line, c1) \<Rightarrow>
          (if line = [] then Some (Inl ImapAbort, c1)
           else if signals line then Some (Inr True, c1)
           else await_signal c1))"
  by pat_completeness auto
termination by (relation "measure (\<lambda>c. length (incoming c))") (auto simp: termination_simp)

function drain :: "string \<Rightarrow> bool \<Rightarrow> wire \<Rightarrow> (bool result \<times> wire) option" where
  "drain tag changed c =
     (case readline c of
        None \<Rightarrow> None
      | Some (Inl e, c1) \<Rightarrow> Some (Inl e, c1)
      | Some (Inr line, c1) \<Rightarrow>
          (if line = [] \<or> prefix tag line then Some (Inr changed, c1)
           else drain tag (changed \<or> signals line) c1))"
  by pat_completeness auto
termination by (relation "measure (\<lambda>(t, b, c). length (incoming c))") (auto simp: termination_simp)

declare await_plus.simps [simp del] await_signal.simps [simp del] drain.simps [simp del]

definition crlf :: string where "crlf = [CHR 0x0D, CHR 0x0A]"

text \<open>\<open>_idle_wait(conn, timeout)\<close>; \<open>None\<close>: it never returns.\<close>

definition idle_wait :: "rat \<Rightarrow> wire \<Rightarrow> (bool result \<times> wire) option" where
  "idle_wait timeout c =
     (case new_tag c of (tag, c0) \<Rightarrow>
      (case wire_send (tag @ '' IDLE'' @ crlf) c0 of
         (Inl e, c1) \<Rightarrow> Some (Inl e, c1)
       | (Inr _, c1) \<Rightarrow>
          (case await_plus tag c1 of
             None \<Rightarrow> None
           | Some (Inl e, c2) \<Rightarrow> Some (Inl e, c2)
           | Some (Inr _, c2) \<Rightarrow>
              (case await_signal (settimeout (Some timeout) c2) of
                 None \<Rightarrow> None
               | Some (Inl e, c3) \<Rightarrow> Some (Inl e, settimeout None c3)
               | Some (Inr changed, c3) \<Rightarrow>
                  (case wire_send (''DONE'' @ crlf) (settimeout None c3) of
                     (Inl e, c4) \<Rightarrow> Some (Inl e, c4)
                   | (Inr _, c4) \<Rightarrow> drain tag changed c4)))))"

lemma settimeout_frame [simp]:
  "incoming (settimeout t c) = incoming c" "sent (settimeout t c) = sent c" "timed_out (settimeout t c) = timed_out c"
  "tagnum (settimeout t c) = tagnum c" "send_fails (settimeout t c) = send_fails c" "sock_timeout (settimeout t c) = t"
  by (simp_all add: settimeout_def)

text \<open>What the loops consume: whole lines from the front, nothing else of the connection.\<close>

definition consumed :: "wire \<Rightarrow> (rat \<times> string) list \<Rightarrow> wire \<Rightarrow> bool" where
  "consumed c ls c' \<longleftrightarrow> incoming c = ls @ incoming c' \<and> \<not> timed_out c' \<and> sent c' = sent c
     \<and> tagnum c' = tagnum c \<and> send_fails c' = send_fails c"

lemma consumed_refl: "\<not> timed_out c \<Longrightarrow> consumed c [] c"
  by (simp add: consumed_def)

lemma consumed_trans: "consumed c ls c' \<Longrightarrow> consumed c' ks c'' \<Longrightarrow> consumed c (ls @ ks) c''"
  by (simp add: consumed_def)

lemma consumed_readline:
  assumes "readline c = Some (Inr l, c')" "l \<noteq> []"
  shows "\<exists>gap. consumed c [(gap, l)] c'"
  using readline_line [OF assms] by (auto simp: consumed_def)

lemma await_plus_consumed:
  "await_plus tag c = Some (Inr (), c') \<Longrightarrow> \<exists>ls. ls \<noteq> [] \<and> consumed c ls c'"
proof (induction tag c rule: await_plus.induct)
  case (1 tag c)
  then obtain l c1 where r: "readline c = Some (Inr l, c1)" "l \<noteq> []"
    by (subst (asm) await_plus.simps) (auto split: option.splits sum.splits if_splits)
  obtain gap where g: "consumed c [(gap, l)] c1" using consumed_readline [OF r] ..
  show ?case
  proof (cases "prefix ''+'' l")
    case True
    with 1(2) r g show ?thesis by (subst (asm) await_plus.simps) auto
  next
    case False
    with 1(2) r have "\<not> prefix tag l" "await_plus tag c1 = Some (Inr (), c')"
      by (subst (asm) await_plus.simps, auto split: if_splits)+
    with 1(1) [OF r(1) refl refl r(2) False] obtain ls where "consumed c1 ls c'" by blast
    with g have "consumed c ((gap, l) # ls) c'" using consumed_trans by fastforce
    then show ?thesis by blast
  qed
qed

lemma await_signal_cases:
  "await_signal c = Some (Inr b, c') \<Longrightarrow>
     b \<and> (\<exists>ls. consumed c ls c' \<and> (\<exists>x\<in>set ls. signals (snd x))) \<or>
     \<not> b \<and> timed_out c'"
proof (induction c rule: await_signal.induct)
  case (1 c)
  then obtain r c1 where r: "readline c = Some (r, c1)"
    by (subst (asm) await_signal.simps) (auto split: option.splits)
  show ?case
  proof (cases r)
    case (Inl e)
    with 1(2) r readline_raises [of c e c1] show ?thesis
      by (subst (asm) await_signal.simps) (auto split: if_splits)
  next
    case (Inr l)
    with 1(2) r have l: "l \<noteq> []" by (subst (asm) await_signal.simps) (auto split: if_splits)
    obtain gap where g: "consumed c [(gap, l)] c1" using consumed_readline r Inr l by blast
    show ?thesis
    proof (cases "signals l")
      case True
      with 1(2) r Inr l g show ?thesis by (subst (asm) await_signal.simps) force
    next
      case False
      with 1(2) r Inr l have s: "await_signal c1 = Some (Inr b, c')" by (subst (asm) await_signal.simps) simp
      from 1(1) [OF r refl Inr l False s] show ?thesis
        using consumed_trans [OF g] by fastforce
    qed
  qed
qed

lemma drain_timed_out: "timed_out c \<Longrightarrow> drain tag b c = Some (Inl OSError, c)"
  by (subst drain.simps) (simp add: readline_def)

lemma drain_consumed:
  "drain tag b c = Some (Inr b', c') \<Longrightarrow> \<exists>ls. consumed c ls c' \<and> b' = (b \<or> (\<exists>x\<in>set ls. signals (snd x) \<and> b'))"
proof (induction tag b c rule: drain.induct)
  case (1 tag b c)
  then obtain l c1 where r: "readline c = Some (Inr l, c1)"
    by (subst (asm) drain.simps) (auto split: option.splits sum.splits)
  show ?case
  proof (cases "l = []")
    case True
    with 1(2) r readline_eof [of c c1] show ?thesis
      by (subst (asm) drain.simps) (auto intro: consumed_refl exI [of _ "[]"])
  next
    case False
    obtain gap where g: "consumed c [(gap, l)] c1" using consumed_readline [OF r False] ..
    show ?thesis
    proof (cases "prefix tag l")
      case True
      with 1(2) r False g show ?thesis by (subst (asm) drain.simps) (auto intro: exI [of _ "[(gap, l)]"])
    next
      case nt: False
      with 1(2) r False have s: "drain tag (b \<or> signals l) c1 = Some (Inr b', c')" by (subst (asm) drain.simps) simp
      from 1(1) [OF r refl refl _ s] False nt obtain ls where
        "consumed c1 ls c'" "b' = ((b \<or> signals l) \<or> (\<exists>x\<in>set ls. signals (snd x) \<and> b'))" by auto
      with consumed_trans [OF g] show ?thesis by (auto intro!: exI [of _ "(gap, l) # ls"])
    qed
  qed
qed

text \<open>A successful send, and what it leaves.\<close>

lemma wire_send_ok: "wire_send s c = (Inr (), c') \<longleftrightarrow> \<not> send_fails c s \<and> c' = c\<lparr>sent := sent c @ [s]\<rparr>"
  by (auto simp: wire_send_def)

definition idle_tag :: "wire \<Rightarrow> string" where
  "idle_tag c = tagpre c @ show_nat (tagnum c)"

lemma idle_wait_returns:
  assumes "idle_wait T c = Some (Inr b, c')"
  obtains c1 c2 c3 where "await_plus (idle_tag c) (c\<lparr>tagnum := Suc (tagnum c), sent := sent c @ [idle_tag c @ '' IDLE'' @ crlf]\<rparr>) = Some (Inr (), c1)"
    "await_signal (settimeout (Some T) c1) = Some (Inr True, c2)"
    "drain (idle_tag c) True (settimeout None c2\<lparr>sent := sent c2 @ [''DONE'' @ crlf]\<rparr>) = Some (Inr b, c')"
proof -
  from assms obtain c1 bb c2 where
    a: "await_plus (idle_tag c) (c\<lparr>tagnum := Suc (tagnum c), sent := sent c @ [idle_tag c @ '' IDLE'' @ crlf]\<rparr>) = Some (Inr (), c1)"
    "await_signal (settimeout (Some T) c1) = Some (Inr bb, c2)"
    "drain (idle_tag c) bb (settimeout None c2\<lparr>sent := sent c2 @ [''DONE'' @ crlf]\<rparr>) = Some (Inr b, c')"
    by (auto simp: idle_wait_def new_tag_def idle_tag_def wire_send_def split: prod.splits option.splits sum.splits if_splits)
  have "bb"
  proof (rule ccontr)
    assume "\<not> bb"
    with await_signal_cases [OF a(2)] have "timed_out (settimeout None c2\<lparr>sent := sent c2 @ [''DONE'' @ crlf]\<rparr>)"
      by (auto simp: settimeout_def)
    from drain_timed_out [OF this] a(3) show False by simp
  qed
  with a that show ?thesis by simp
qed

lemma idle_wait_effect:
  assumes "idle_wait T c = Some (Inr b, c')"
  shows "b \<and> (\<exists>ls. incoming c = ls @ incoming c' \<and> ls \<noteq> [] \<and> (\<exists>x\<in>set ls. signals (snd x))) \<and>
    sent c' = sent c @ [idle_tag c @ '' IDLE'' @ crlf, ''DONE'' @ crlf] \<and> tagnum c' = Suc (tagnum c)"
proof -
  obtain c1 c2 where a:
    "await_plus (idle_tag c) (c\<lparr>tagnum := Suc (tagnum c), sent := sent c @ [idle_tag c @ '' IDLE'' @ crlf]\<rparr>) = Some (Inr (), c1)"
    "await_signal (settimeout (Some T) c1) = Some (Inr True, c2)"
    "drain (idle_tag c) True (settimeout None c2\<lparr>sent := sent c2 @ [''DONE'' @ crlf]\<rparr>) = Some (Inr b, c')"
    using idle_wait_returns [OF assms] .
  from await_plus_consumed [OF a(1)] obtain l1 where 1: "l1 \<noteq> []" "consumed (c\<lparr>tagnum := Suc (tagnum c), sent := sent c @ [idle_tag c @ '' IDLE'' @ crlf]\<rparr>) l1 c1"
    by blast
  from await_signal_cases [OF a(2)] obtain l2 x where 2: "consumed (settimeout (Some T) c1) l2 c2" "x \<in> set l2" "signals (snd x)"
    by blast
  from drain_consumed [OF a(3)] obtain l3 where 3: "consumed (settimeout None c2\<lparr>sent := sent c2 @ [''DONE'' @ crlf]\<rparr>) l3 c'" "b"
    by blast
  from 1 2 3 have "incoming c = (l1 @ l2 @ l3) @ incoming c'"
      "sent c' = sent c @ [idle_tag c @ '' IDLE'' @ crlf, ''DONE'' @ crlf]" "tagnum c' = Suc (tagnum c)"
    by (simp_all add: consumed_def settimeout_def)
  moreover have "l1 @ l2 @ l3 \<noteq> []" "x \<in> set (l1 @ l2 @ l3)" using 1(1) 2(2) by simp_all
  ultimately show ?thesis using 2(3) 3(2) by blast
qed

text \<open>
  C21.  When \<open>_idle_wait\<close> returns, it reports a change, and truly: it has sent exactly one IDLE with a
  fresh tag and one DONE, and read whole lines off the connection, one of which signals new mail.
  So it never returns \<open>False\<close>: the quiet case its docstring allows for does not exist.
\<close>

theorem idle_wait_reports_real_change:
  assumes "idle_wait T c = Some (Inr b, c')"
  shows "b \<and> (\<exists>ls. incoming c = ls @ incoming c' \<and> ls \<noteq> [] \<and> (\<exists>x\<in>set ls. signals (snd x))) \<and>
    sent c' = sent c @ [idle_tag c @ '' IDLE'' @ crlf, ''DONE'' @ crlf] \<and> tagnum c' = Suc (tagnum c)"
  by (rule idle_wait_effect [OF assms])

text \<open>
  C22.  The refresh does not work: if the server accepts IDLE and then stays silent for \<open>timeout\<close>
  seconds, the call sends DONE and raises \<open>OSError\<close>, although the connection is sound and the
  server's reply may already be there.  The watcher drops the connection instead of reissuing IDLE.
\<close>

theorem idle_refresh_breaks_the_connection:
  assumes "incoming c = (g, l) # ls" "prefix ''+'' l" "\<not> timed_out c"
    and "case sock_timeout c of None \<Rightarrow> True | Some t \<Rightarrow> g < t"
    and "ls = [] \<or> T \<le> fst (hd ls)"
    and "\<And>s. \<not> send_fails c s"
  shows "\<exists>c'. idle_wait T c = Some (Inl OSError, c') \<and> sent c' = sent c @ [idle_tag c @ '' IDLE'' @ crlf, ''DONE'' @ crlf]"
proof -
  let ?c0 = "c\<lparr>tagnum := Suc (tagnum c), sent := sent c @ [idle_tag c @ '' IDLE'' @ crlf]\<rparr>"
  have "l \<noteq> []" using assms(2) by auto
  then have "readline ?c0 = Some (Inr l, ?c0\<lparr>incoming := ls\<rparr>)"
    using assms(1,3,4) by (auto simp: readline_def split: option.splits)
  with \<open>l \<noteq> []\<close> assms(2) have a: "await_plus (idle_tag c) ?c0 = Some (Inr (), ?c0\<lparr>incoming := ls\<rparr>)"
    by (subst await_plus.simps) simp
  have "\<exists>c2. readline (settimeout (Some T) (?c0\<lparr>incoming := ls\<rparr>)) = Some (Inl SocketTimeout, c2) \<and> timed_out c2
      \<and> sent c2 = sent ?c0 \<and> send_fails c2 = send_fails c"
    using assms(3,5) by (cases ls) (auto simp: readline_def)
  then obtain c2 where b: "await_signal (settimeout (Some T) (?c0\<lparr>incoming := ls\<rparr>)) = Some (Inr False, c2)"
      "timed_out c2" "sent c2 = sent ?c0" "send_fails c2 = send_fails c"
    by (auto simp: await_signal.simps [of "settimeout _ _"])
  have "idle_wait T c = Some (Inl OSError, settimeout None c2\<lparr>sent := sent c2 @ [''DONE'' @ crlf]\<rparr>)"
    using a b assms(6) by (simp add: idle_wait_def new_tag_def wire_send_def idle_tag_def drain_timed_out)
  then show ?thesis using b(3) by simp
qed

definition sample_wire :: "(rat \<times> string) list \<Rightarrow> wire" where
  "sample_wire ls = \<lparr>incoming = ls, sock_timeout = Some 30, timed_out = False, sent = [], send_fails = \<lambda>_. False,
     tagpre = ''ABCD'', tagnum = 7\<rparr>"

theorem idle_refresh_breaks_the_connection_witness:
  "\<exists>c'. idle_wait 1500 (sample_wire [(0, ''+ idling''), (1600, ''ABCD7 OK'')]) = Some (Inl OSError, c')"
  using idle_refresh_breaks_the_connection [of "sample_wire [(0, ''+ idling''), (1600, ''ABCD7 OK'')]" 0 "''+ idling''"
      "[(1600, ''ABCD7 OK'')]" 1500]
  by (auto simp: sample_wire_def)

text \<open>A push that is noticed: one EXISTS line after ten seconds.\<close>

lemma show_nat_digit: "n < 10 \<Longrightarrow> show_nat n = [char_of (48 + n)]"
  by (subst show_nat.simps) simp

lemma char_7: "char_of (55::nat) = CHR ''7''"
  by (simp add: char_of_def bit_Suc_0_iff)

lemma idle_wait_sample:
  "fst (the (idle_wait 1500 (sample_wire [(0, ''+ idling''), (10, ''* 3 EXISTS''), (0, ''ABCD7 OK'')]))) = Inr True"
  by (simp add: idle_wait_def sample_wire_def new_tag_def wire_send_def show_nat_digit char_7
     await_plus.simps await_signal.simps drain.simps readline_def settimeout_def signals_def upper_bytes_def upper_byte_def sublist_code Let_def)

theorem idle_wait_reports_real_change_witness:
  "sent (snd (the (idle_wait 1500 (sample_wire [(0, ''+ idling''), (10, ''* 3 EXISTS''), (0, ''ABCD7 OK'')]))))
     = [idle_tag (sample_wire []) @ '' IDLE'' @ crlf, ''DONE'' @ crlf]"
proof -
  let ?c = "sample_wire [(0, ''+ idling''), (10, ''* 3 EXISTS''), (0, ''ABCD7 OK'')]"
  obtain r c' where r: "idle_wait 1500 ?c = Some (r, c')"
    using idle_wait_sample by (cases "idle_wait 1500 ?c") (auto simp: idle_wait_def sample_wire_def new_tag_def
      wire_send_def show_nat_digit char_7 await_plus.simps await_signal.simps drain.simps readline_def settimeout_def
      signals_def upper_bytes_def upper_byte_def sublist_code Let_def)
  with idle_wait_sample have "r = Inr True" by simp
  with idle_wait_reports_real_change [of 1500 ?c True c'] r show ?thesis
    by (simp add: sample_wire_def idle_tag_def)
qed

subsection \<open>The one-time subscription\<close>

text \<open>
  The session with the local Dovecot: LSUB and LIST give a status and data or raise,
  \<open>l_subscribe\<close> is how the server answers SUBSCRIBE for a name.  \<open>imaplib\<close> encodes arguments as
  ASCII, so a name with another character raises before anything is sent.  The result lists the
  names SUBSCRIBE was sent for.
\<close>

record local_conn =
  l_connect :: "exc option"
  l_login :: "string \<Rightarrow> string \<Rightarrow> exc option"
  l_lsub :: "(string \<times> list_item list) result"
  l_list :: "(string \<times> list_item list) result"
  l_subscribe :: "folder \<Rightarrow> string result"

text \<open>\<open>name.upper() == "INBOX"\<close>: besides the letters themselves only U+0131 has one of them as its upper case.\<close>

definition upper_cp :: "nat \<Rightarrow> nat" where
  "upper_cp c = (if 97 \<le> c \<and> c \<le> 122 then c - 32 else if c = 305 then 73 else c)"

definition is_inbox :: "folder \<Rightarrow> bool" where
  "is_inbox name \<longleftrightarrow> map upper_cp name = INBOX"

definition send_subscribe :: "local_conn \<Rightarrow> folder \<Rightarrow> string result \<times> folder list" where
  "send_subscribe lc name =
     (if \<exists>c\<in>set name. 128 \<le> c then (Inl UnicodeError, []) else (l_subscribe lc name, [name]))"

fun subscribe_all :: "local_conn \<Rightarrow> folder list \<Rightarrow> nat \<times> folder list" where
  "subscribe_all lc [] = (0, [])"
| "subscribe_all lc (name # ns) =
     (if is_inbox name then subscribe_all lc ns
      else case (send_subscribe lc name, subscribe_all lc ns) of
        ((r, s1), (added, s2)) \<Rightarrow> (if r = Inr ''OK'' then Suc added else added, s1 @ s2))"

definition list_data :: "(string \<times> list_item list) result \<Rightarrow> folder list result" where
  "list_data r = (case r of Inl e \<Rightarrow> Inl e | Inr (typ, dat) \<Rightarrow> list_names dat)"

definition marker_path :: "string \<Rightarrow> string" where
  "marker_path email = ''/mail/.creds/'' @ email @ ''/subscribed''"

text \<open>\<open>open(marker, "w")\<close> needs the directory of the user.\<close>

definition write_marker :: "string \<Rightarrow> world \<Rightarrow> world" where
  "write_marker email w =
     (if ''/mail/.creds/'' @ email \<in> set (dirs w) then put_file (marker_path email) (Bytes []) w else w)"

definition subscribe_once :: "local_conn \<Rightarrow> string \<Rightarrow> string \<Rightarrow> world \<Rightarrow> folder list \<times> world" where
  "subscribe_once lc email password w =
     (if is_file w (marker_path email) then ([], w)
      else case (l_connect lc, l_login lc email password) of
        (Some e, _) \<Rightarrow> ([], w)
      | (None, Some e) \<Rightarrow> ([], w)
      | (None, None) \<Rightarrow>
          (case list_data (l_lsub lc) of
             Inl e \<Rightarrow> ([], w)
           | Inr subs \<Rightarrow>
              (if set subs - {INBOX} = {} then
                 (case list_data (l_list lc) of
                    Inl e \<Rightarrow> ([], w)
                  | Inr names \<Rightarrow> (snd (subscribe_all lc names), write_marker email w))
               else ([], write_marker email w))))"

lemma subscribe_all_set:
  "set (snd (subscribe_all lc ns)) = {n \<in> set ns. \<not> is_inbox n \<and> (\<forall>c\<in>set n. c < 128)}"
  by (induction ns) (auto simp: send_subscribe_def split: prod.splits)

lemma marker_path_not: "marker_path e \<noteq> MASTER_KEY_FILE"
  by (simp add: marker_path_def MASTER_KEY_FILE_def)

lemma marker_path_plain: "plain_user e \<Longrightarrow> cred_path e ''subscribed'' = marker_path e"
  by (simp add: cred_path_plain marker_path_def)

text \<open>
  A mailbox with a subscription selection is left alone: if the marker exists, or LSUB shows any
  folder but the INBOX, no SUBSCRIBE is sent; otherwise only ASCII folders that the server lists
  are subscribed, never the INBOX; and whenever a SUBSCRIBE was sent, the marker is written, so a
  later call sends none.
\<close>

theorem subscribe_once_respects_selection:
  "(is_file w (marker_path e) \<longrightarrow> subscribe_once lc e p w = ([], w)) \<and>
   (\<forall>subs. list_data (l_lsub lc) = Inr subs \<and> \<not> set subs \<subseteq> {INBOX} \<longrightarrow> fst (subscribe_once lc e p w) = []) \<and>
   (fst (subscribe_once lc e p w) \<noteq> [] \<longrightarrow>
      (\<exists>names. list_data (l_list lc) = Inr names \<and>
         set (fst (subscribe_once lc e p w)) = {n \<in> set names. \<not> is_inbox n \<and> (\<forall>c\<in>set n. c < 128)})) \<and>
   (fst (subscribe_once lc e p w) \<noteq> [] \<and> ''/mail/.creds/'' @ e \<in> set (dirs w) \<longrightarrow>
      (\<forall>lc' p'. fst (subscribe_once lc' e p' (snd (subscribe_once lc e p w))) = []))"
proof (intro conjI)
  show "is_file w (marker_path e) \<longrightarrow> subscribe_once lc e p w = ([], w)"
    by (simp add: subscribe_once_def)
  show "\<forall>subs. list_data (l_lsub lc) = Inr subs \<and> \<not> set subs \<subseteq> {INBOX} \<longrightarrow> fst (subscribe_once lc e p w) = []"
    by (auto simp: subscribe_once_def split: option.split)
  show "fst (subscribe_once lc e p w) \<noteq> [] \<longrightarrow>
      (\<exists>names. list_data (l_list lc) = Inr names \<and>
         set (fst (subscribe_once lc e p w)) = {n \<in> set names. \<not> is_inbox n \<and> (\<forall>c\<in>set n. c < 128)})"
    by (auto simp: subscribe_once_def subscribe_all_set split: option.split sum.split)
  show "fst (subscribe_once lc e p w) \<noteq> [] \<and> ''/mail/.creds/'' @ e \<in> set (dirs w) \<longrightarrow>
      (\<forall>lc' p'. fst (subscribe_once lc' e p' (snd (subscribe_once lc e p w))) = [])"
    by (auto simp: subscribe_once_def write_marker_def put_file_def is_file_def split: option.splits sum.splits)
qed

text \<open>Folders with a non-ASCII name are never subscribed, although the pass is recorded as done.\<close>

lemma subscribe_skips_non_ascii:
  "c \<in> set n \<Longrightarrow> 128 \<le> c \<Longrightarrow> n \<notin> set (snd (subscribe_all lc names))"
  by (fastforce simp: subscribe_all_set)

subsection \<open>The watcher of one user\<close>

text \<open>
  \<open>'m env\<close> holds the parameters of the syncs and of the local server, \<open>session\<close> what one connection
  to the university does: the exceptions of connecting, LOGIN, SELECT and LOGOUT, the
  capabilities, and the wire on which IDLE runs.  The trace lists the runs of \<open>mbsync\<close>, the
  SUBSCRIBE commands and the sleeps, in order.
\<close>

record 'm env =
  e_crypto :: crypto
  e_config :: config
  e_mv_err :: "folder \<Rightarrow> bool"
  e_ts :: folder
  e_far :: imap_conn
  e_mbsync :: "'m mbsync"
  e_local :: local_conn
  e_refresh :: rat

record session =
  s_connect :: "exc option"
  s_login :: "string \<Rightarrow> string \<Rightarrow> exc option"
  s_caps :: "string list"
  s_logout :: "exc option"
  s_select :: "exc option"
  s_wire :: wire

datatype watch_event = Mbsync mb_call | Subscribe folder | Sleep int

text \<open>How a round ends: sleep and try again, return, sleep for ever, wait for ever in a read.\<close>

datatype watch_end = Again | Returned | Parked | Blocked

definition run_sync :: "'m env \<Rightarrow> string \<Rightarrow> string option \<Rightarrow> world \<times> 'm store \<Rightarrow> watch_event list \<times> world \<times> 'm store" where
  "run_sync env email boxes ws =
     (case sync_user (e_crypto env) (e_config env) (e_mv_err env) (e_ts env) (e_far env) (e_mbsync env) email boxes ws of
        (calls, ws1) \<Rightarrow> (map Mbsync calls, ws1))"

definition sync_inbox :: "'m env \<Rightarrow> string \<Rightarrow> world \<times> 'm store \<Rightarrow> watch_event list \<times> world \<times> 'm store" where
  "sync_inbox env email ws = run_sync env email (Some ''INBOX'') ws"

definition sync_all_folders :: "'m env \<Rightarrow> string \<Rightarrow> world \<times> 'm store \<Rightarrow> watch_event list \<times> world \<times> 'm store" where
  "sync_all_folders env email ws =
     (case run_sync env email (Some ''INBOX'') ws of
        (t1, ws1) \<Rightarrow> (case run_sync env email None ws1 of (t2, ws2) \<Rightarrow> (t1 @ t2, ws2)))"

lemma idle_wait_shorter [termination_simp]:
  "idle_wait T c = Some (Inr b, c') \<Longrightarrow> length (incoming c') < length (incoming c)"
  using idle_wait_effect [of T c b c'] by auto

function idle_loop :: "'m env \<Rightarrow> string \<Rightarrow> wire \<Rightarrow> world \<times> 'm store
    \<Rightarrow> watch_end \<times> watch_event list \<times> world \<times> 'm store" where
  "idle_loop env email c ws =
     (case idle_wait (e_refresh env) c of
        None \<Rightarrow> (Blocked, [], ws)
      | Some (Inl e, c1) \<Rightarrow> (Again, [], ws)
      | Some (Inr changed, c1) \<Rightarrow>
          (case (if changed then sync_inbox env email ws else ([], ws)) of
             (t1, ws1) \<Rightarrow> (case idle_loop env email c1 ws1 of (r, t2, ws2) \<Rightarrow> (r, t1 @ t2, ws2))))"
  by pat_completeness auto
termination by (relation "measure (\<lambda>(env, e, c, ws). length (incoming c))") (auto simp: termination_simp)

declare idle_loop.simps [simp del]

definition is_rejection :: "exc \<Rightarrow> bool" where
  "is_rejection e \<longleftrightarrow> is_imap_error e \<and> e \<noteq> ImapAbort"

text \<open>
  One pass of the loop: how it ends, the backoff in force when it ends, the trace and the state.
  An exception other than the rejected login is logged and ends the pass with \<open>Again\<close>.
\<close>

definition watch_pass :: "'m env \<Rightarrow> string \<Rightarrow> session \<Rightarrow> int \<Rightarrow> world \<times> 'm store
    \<Rightarrow> watch_end \<times> int \<times> watch_event list \<times> world \<times> 'm store" where
  "watch_pass env email s backoff ws =
     (case read_password (e_crypto env) (fst ws) email of
        Inl e \<Rightarrow> (Again, backoff, [], ws)
      | Inr pw \<Rightarrow>
         (case s_connect s of
            Some e \<Rightarrow> (Again, backoff, [], ws)
          | None \<Rightarrow>
             (case s_login s (upstream_user email) pw of
                Some e \<Rightarrow>
                  (if is_rejection e then (Returned, backoff, [], deauth email (fst ws), snd ws)
                   else (Again, backoff, [], ws))
              | None \<Rightarrow>
                 (if ''IDLE'' \<notin> set (s_caps s) then
                    (if s_logout s = None then (Parked, backoff, [], ws) else (Again, backoff, [], ws))
                  else case s_select s of
                    Some e \<Rightarrow> (Again, backoff, [], ws)
                  | None \<Rightarrow>
                     (case sync_all_folders env email ws of
                        (t1, w1, st1) \<Rightarrow>
                          (case subscribe_once (e_local env) email pw w1 of
                             (subs, w2) \<Rightarrow>
                               (case idle_loop env email (s_wire s) (w2, st1) of
                                  (r, t2, ws3) \<Rightarrow> (r, 5, t1 @ map Subscribe subs @ t2, ws3))))))))"

text \<open>\<open>watch_user\<close>: the sessions are the ones its passes meet, in order.\<close>

fun watch_loop :: "'m env \<Rightarrow> string \<Rightarrow> session list \<Rightarrow> int \<Rightarrow> world \<times> 'm store
    \<Rightarrow> watch_end \<times> watch_event list \<times> world \<times> 'm store" where
  "watch_loop env email [] backoff ws = (Again, [], ws)"
| "watch_loop env email (s # ss) backoff ws =
     (case watch_pass env email s backoff ws of
        (r, backoff1, t1, ws1) \<Rightarrow>
          (if r \<noteq> Again then (r, t1, ws1)
           else (case watch_loop env email ss (min (backoff1 * 2) 120) ws1 of
                   (r2, t2, ws2) \<Rightarrow> (r2, t1 @ [Sleep backoff1] @ t2, ws2))))"

definition watch_user :: "'m env \<Rightarrow> string \<Rightarrow> session list \<Rightarrow> world \<times> 'm store
    \<Rightarrow> watch_end \<times> watch_event list \<times> world \<times> 'm store" where
  "watch_user env email ss ws = watch_loop env email ss 5 ws"

subsection \<open>What a run of the watcher does\<close>

text \<open>The three ways a pass changes the world: it de-enrols the user, writes the marker, or neither.\<close>

inductive touched :: "string \<Rightarrow> bool \<Rightarrow> world \<Rightarrow> world \<Rightarrow> bool" for e rej where
  same: "touched e rej w w"
| deauthed: "rej \<Longrightarrow> touched e rej w w' \<Longrightarrow> touched e rej w (deauth e w')"
| marked: "touched e rej w w' \<Longrightarrow> touched e rej w (write_marker e w')"

lemma touched_trans: "touched e rej w' w'' \<Longrightarrow> touched e rej w w' \<Longrightarrow> touched e rej w w''"
  by (induction rule: touched.induct) (auto intro: touched.intros)

lemma dirs_deauth [simp]: "dirs (deauth e w) = dirs w"
  by (simp add: deauth_def)

lemma dirs_write_marker [simp]: "dirs (write_marker e w) = dirs w"
  by (simp add: write_marker_def)

lemma touched_weaken: "touched e rej w w' \<Longrightarrow> (rej \<Longrightarrow> rej') \<Longrightarrow> touched e rej' w w'"
  by (induction rule: touched.induct) (auto intro: touched.intros)

lemma touched_dirs: "touched e rej w w' \<Longrightarrow> dirs w' = dirs w"
  by (induction rule: touched.induct) simp_all

lemma touched_files:
  "touched e rej w w' \<Longrightarrow> \<not> rej \<Longrightarrow> q \<noteq> marker_path e \<Longrightarrow> files w' q = files w q"
  by (induction rule: touched.induct) (auto simp: write_marker_def put_file_def)

lemma touched_marker:
  assumes "touched e rej w w'" "plain_user e" "is_file w (marker_path e)"
  shows "is_file w' (marker_path e)"
  using assms
  by (induction rule: touched.induct)
    (auto simp: write_marker_def put_file_def is_file_def files_deauth marker_path_plain [symmetric] cred_path_inject)

text \<open>Whether \<open>mbsync\<close> may report a rejected login.\<close>

definition may_reject :: "'m env \<Rightarrow> bool" where
  "may_reject env \<longleftrightarrow> (\<exists>cfg ch pw st. login_rejected (fst (e_mbsync env cfg ch pw st)))"

lemma may_rejectI: "login_rejected (fst (e_mbsync env cfg ch pw st)) \<Longrightarrow> may_reject env"
  by (auto simp: may_reject_def)

lemma run_sync_touched: 
  "run_sync env e boxes (w, st) = (t, w', st') \<Longrightarrow> touched e (may_reject env) w w' \<and> (\<forall>x\<in>set t. \<exists>c. x = Mbsync c)"
  by (auto simp: run_sync_def sync_user_run Let_def intro: same deauthed [OF _ same] may_rejectI split: prod.splits sum.splits if_splits)

lemma sync_all_touched:
  assumes "sync_all_folders env e (w, st) = (t, w', st')"
  shows "touched e (may_reject env) w w' \<and> (\<forall>x\<in>set t. \<exists>c. x = Mbsync c)"
proof -
  obtain t1 w1 st1 where 1: "run_sync env e (Some ''INBOX'') (w, st) = (t1, w1, st1)" using prod_cases3 by blast
  obtain t2 w2 st2 where 2: "run_sync env e None (w1, st1) = (t2, w2, st2)" using prod_cases3 by blast
  have "t = t1 @ t2" "w' = w2" using assms 1 2 by (simp_all add: sync_all_folders_def)
  with run_sync_touched [OF 1] run_sync_touched [OF 2] touched_trans show ?thesis by auto
qed

lemma subscribe_once_touched:
  "subscribe_once lc e pw w = (subs, w') \<Longrightarrow> touched e rej w w'"
  by (auto simp: subscribe_once_def intro: same marked [OF same] split: if_splits option.splits sum.splits)

lemma idle_loop_touched:
  "idle_loop env e c (w, st) = (r, t, w', st') \<Longrightarrow>
   touched e (may_reject env) w w' \<and> (\<forall>x\<in>set t. \<exists>c. x = Mbsync c) \<and> r \<in> {Again, Blocked}"
proof (induction env e c "(w, st)" arbitrary: w st r t rule: idle_loop.induct)
  case (1 env e c w st)
  show ?case
  proof (cases "idle_wait (e_refresh env) c")
    case None
    with 1(2) show ?thesis by (subst (asm) idle_loop.simps) (simp add: same)
  next
    case (Some rc)
    then obtain x c1 where x: "idle_wait (e_refresh env) c = Some (x, c1)" by (cases rc) simp
    show ?thesis
    proof (cases x)
      case (Inl ex)
      with x 1(2) show ?thesis by (subst (asm) idle_loop.simps) (simp add: same)
    next
      case (Inr b)
      obtain t1 w1 st1 where s: "(if b then sync_inbox env e (w, st) else ([], w, st)) = (t1, w1, st1)"
        by (cases "if b then sync_inbox env e (w, st) else ([], w, st)")
      obtain r2 t2 w2 st2 where l: "idle_loop env e c1 (w1, st1) = (r2, t2, w2, st2)"
        by (cases "idle_loop env e c1 (w1, st1)")
      have "idle_loop env e c (w, st) = (r2, t1 @ t2, w2, st2)"
        unfolding idle_loop.simps [of env e c "(w, st)"] by (simp only: x Inr s l option.case sum.case prod.case)
      with 1(2) have eq: "r = r2" "t = t1 @ t2" "w' = w2" "st' = st2" by simp_all
      have "touched e (may_reject env) w w1 \<and> (\<forall>x\<in>set t1. \<exists>c. x = Mbsync c)"
        using s run_sync_touched [of env e "Some ''INBOX''" w st t1 w1 st1] by (cases b) (auto simp: sync_inbox_def intro: same)
      moreover have "touched e (may_reject env) w1 w2 \<and> (\<forall>x\<in>set t2. \<exists>c. x = Mbsync c) \<and> r2 \<in> {Again, Blocked}"
        using 1(1) [OF x refl Inr s [symmetric]] l eq by simp
      ultimately show ?thesis using eq touched_trans by auto
    qed
  qed
qed


definition subs_of :: "watch_event list \<Rightarrow> watch_event list" where
  "subs_of t = filter (\<lambda>x. case x of Subscribe n \<Rightarrow> True | _ \<Rightarrow> False) t"

lemma subs_of_simps [simp]:
  "subs_of [] = []" "subs_of (a @ b) = subs_of a @ subs_of b" "subs_of [Sleep d] = []"
  "subs_of (map Subscribe ns) = map Subscribe ns"
  by (simp_all add: subs_of_def filter_map comp_def)

lemma subs_of_mbsync: "\<forall>x\<in>set t. \<exists>c. x = Mbsync c \<Longrightarrow> subs_of t = []"
  unfolding subs_of_def by (rule filter_False) auto

text \<open>The outcome of a pass that meets the mailbox: syncs, the subscription, IDLE.\<close>

lemma watch_pass_cases:
  assumes "watch_pass env e s b (w, st) = (r, b', t, w', st')"
  obtains (rejected) pw x where "s_login s (upstream_user e) pw = Some x" "is_rejection x" "r = Returned" "b' = b" "t = []"
      "w' = deauth e w"
  | (early) "r = Again \<or> r = Parked" "b' = b" "t = []" "w' = w"
  | (watched) pw t1 w1 st1 subs w2 t2 where "sync_all_folders env e (w, st) = (t1, w1, st1)"
      "subscribe_once (e_local env) e pw w1 = (subs, w2)" "idle_loop env e (s_wire s) (w2, st1) = (r, t2, w', st')"
      "t = t1 @ map Subscribe subs @ t2" "b' = 5"
  using assms
  by (auto simp: watch_pass_def split: sum.splits option.splits if_splits prod.splits)

lemma watch_pass_touched:
  assumes "watch_pass env e s b (w, st) = (r, b', t, w', st')"
  shows "touched e (may_reject env \<or> r = Returned) w w' \<and> (\<forall>d. Sleep d \<notin> set t) \<and> (b' = b \<or> b' = 5)"
  using assms
proof (cases rule: watch_pass_cases)
  case (watched pw t1 w1 st1 subs w2 t2)
  have "touched e (may_reject env) w w1" "touched e (may_reject env) w1 w2" "touched e (may_reject env) w2 w'" "r \<noteq> Returned"
      "\<forall>x\<in>set t1 \<union> set t2. \<exists>c. x = Mbsync c"
    using sync_all_touched [OF watched(1)] subscribe_once_touched [OF watched(2)] idle_loop_touched [OF watched(3)] by auto
  then show ?thesis using watched touched_trans by fastforce
qed (auto intro: same deauthed [OF _ same])

lemma watch_pass_subs:
  assumes "watch_pass env e s b (w, st) = (r, b', t, w', st')" "plain_user e" "''/mail/.creds/'' @ e \<in> set (dirs w)"
  shows "subs_of t = [] \<or> \<not> is_file w (marker_path e) \<and> is_file w' (marker_path e) \<and>
    (\<exists>names. list_data (l_list (e_local env)) = Inr names \<and> subs_of t = map Subscribe (snd (subscribe_all (e_local env) names)))"
  using assms(1)
proof (cases rule: watch_pass_cases)
  case (watched pw t1 w1 st1 subs w2 t2)
  note a = sync_all_touched [OF watched(1), THEN conjunct1] and c = idle_loop_touched [OF watched(3)]
  have t: "subs_of t = map Subscribe subs"
    using sync_all_touched [OF watched(1)] c by (simp add: watched subs_of_mbsync)
  have d: "''/mail/.creds/'' @ e \<in> set (dirs w1)" using touched_dirs [OF a] assms(3) by simp
  show ?thesis
  proof (cases "subs = []")
    case False
    with watched(2) d have "\<not> is_file w1 (marker_path e)" "is_file w2 (marker_path e)"
        "\<exists>names. list_data (l_list (e_local env)) = Inr names \<and> subs = snd (subscribe_all (e_local env) names)"
      by (auto simp: subscribe_once_def write_marker_def put_file_def is_file_def split: if_splits option.splits sum.splits)
    moreover have "\<not> is_file w (marker_path e)" using calculation(1) touched_marker [OF a assms(2)] by blast
    moreover have "is_file w' (marker_path e)" using calculation(2) touched_marker [OF c [THEN conjunct1] assms(2)] by blast
    ultimately show ?thesis using t by auto
  qed (use t in simp)
qed simp_all


lemma watch_loop_touched:
  "watch_loop env e ss b (w, st) = (r, t, w', st') \<Longrightarrow> touched e (may_reject env \<or> r = Returned) w w'"
proof (induction ss arbitrary: b w st r t w' st')
  case Nil
  then show ?case by (simp add: same)
next
  case (Cons s ss)
  obtain r1 b1 t1 w1 st1 where p: "watch_pass env e s b (w, st) = (r1, b1, t1, w1, st1)"
    by (cases "watch_pass env e s b (w, st)")
  note 1 = watch_pass_touched [OF p]
  show ?case
  proof (cases "r1 = Again")
    case True
    obtain r2 t2 w2 st2 where l: "watch_loop env e ss (min (b1 * 2) 120) (w1, st1) = (r2, t2, w2, st2)"
      by (cases "watch_loop env e ss (min (b1 * 2) 120) (w1, st1)")
    from Cons.prems p l True have r: "r = r2" "w' = w2" by simp_all
    from 1 True have "touched e (may_reject env \<or> r2 = Returned) w w1" by (auto elim: touched_weaken)
    from touched_trans [OF Cons.IH [OF l] this] show ?thesis unfolding r .
  next
    case False
    with Cons.prems p 1 show ?thesis by simp
  qed
qed

lemma watch_loop_sleeps:
  "watch_loop env e ss b ws = (r, t, ws') \<Longrightarrow> b \<in> {5, 10, 20, 40, 80, 120} \<Longrightarrow> Sleep d \<in> set t \<Longrightarrow> d \<in> {5, 10, 20, 40, 80, 120}"
proof (induction ss arbitrary: b ws r t ws')
  case (Cons s ss)
  obtain r1 b1 t1 ws1 where p: "watch_pass env e s b ws = (r1, b1, t1, ws1)"
    by (cases "watch_pass env e s b ws")
  obtain r2 t2 ws2 where l: "watch_loop env e ss (min (b1 * 2) 120) ws1 = (r2, t2, ws2)"
    by (cases "watch_loop env e ss (min (b1 * 2) 120) ws1")
  obtain w st w1 st1 where ws: "ws = (w, st)" "ws1 = (w1, st1)" by (cases ws; cases ws1)
  from watch_pass_touched [OF p [unfolded ws]] Cons.prems(2)
  have 1: "Sleep d \<notin> set t1" "b1 \<in> {5, 10, 20, 40, 80, 120}" by auto
  then have "min (b1 * 2) 120 \<in> {5, 10, 20, 40, 80, 120}" by auto
  from Cons.IH [OF l this] 1 Cons.prems(1,3) p l show ?case by (auto split: if_splits)
qed simp


lemma watch_loop_subs:
  assumes "watch_loop env e ss b (w, st) = (r, t, w', st')" "plain_user e" "''/mail/.creds/'' @ e \<in> set (dirs w)"
  shows "subs_of t = [] \<or> \<not> is_file w (marker_path e) \<and>
    (\<exists>names. list_data (l_list (e_local env)) = Inr names \<and> subs_of t = map Subscribe (snd (subscribe_all (e_local env) names)))"
  using assms
proof (induction ss arbitrary: b w st r t w' st')
  case (Cons s ss)
  obtain r1 b1 t1 w1 st1 where p: "watch_pass env e s b (w, st) = (r1, b1, t1, w1, st1)"
    by (cases "watch_pass env e s b (w, st)")
  obtain r2 t2 w2 st2 where l: "watch_loop env e ss (min (b1 * 2) 120) (w1, st1) = (r2, t2, w2, st2)"
    by (cases "watch_loop env e ss (min (b1 * 2) 120) (w1, st1)")
  have t: "t = t1 \<or> t = t1 @ [Sleep b1] @ t2" using Cons.prems(1) p l by (auto split: if_splits)
  note pt = watch_pass_touched [OF p, THEN conjunct1]
  have d: "''/mail/.creds/'' @ e \<in> set (dirs w1)" using touched_dirs [OF pt] Cons.prems(3) by simp
  note 1 = watch_pass_subs [OF p Cons.prems(2,3)] and 2 = Cons.IH [OF l Cons.prems(2) d]
  have "subs_of t1 = [] \<or> subs_of t2 = []" using 1 2 by blast
  moreover have "\<not> is_file w1 (marker_path e) \<Longrightarrow> \<not> is_file w (marker_path e)"
    using touched_marker [OF pt Cons.prems(2)] by blast
  moreover have "subs_of ([Sleep b1] @ t2) = subs_of t2" by (simp add: subs_of_def)
  ultimately show ?case using 1 2 t by (auto simp del: append.simps)
qed simp

lemma watch_loop_returned:
  assumes "watch_loop env e ss b (w, st) = (Returned, t, w', st')" "plain_user e"
  shows "read_password cr w' e = Inl FileNotFoundError \<and> e \<notin> set (enrolled_users w') \<and>
    (\<exists>s\<in>set ss. \<exists>pw x. s_login s (upstream_user e) pw = Some x \<and> is_rejection x)"
  using assms
proof (induction ss arbitrary: b w st t w' st')
  case (Cons s ss)
  obtain r1 b1 t1 w1 st1 where p: "watch_pass env e s b (w, st) = (r1, b1, t1, w1, st1)"
    by (cases "watch_pass env e s b (w, st)")
  obtain r2 t2 w2 st2 where l: "watch_loop env e ss (min (b1 * 2) 120) (w1, st1) = (r2, t2, w2, st2)"
    by (cases "watch_loop env e ss (min (b1 * 2) 120) (w1, st1)")
  show ?case
  proof (cases "r1 = Again")
    case True
    with Cons.prems p l have "r2 = Returned" "w' = w2" by simp_all
    with Cons.IH [of "min (b1 * 2) 120" w1 st1 t2 w2 st2] l Cons.prems(2) show ?thesis by auto
  next
    case False
    with Cons.prems p have r: "r1 = Returned" "w' = w1" by simp_all
    from p show ?thesis
    proof (cases rule: watch_pass_cases)
      case (rejected pw x)
      then show ?thesis
        using r read_password_deauth [OF Cons.prems(2), of cr w] enrolled_users_deauth [OF Cons.prems(2), of w] by auto
    next
      case (watched pw t1 w1 st1 subs w2 t2)
      then show ?thesis using r idle_loop_touched [OF watched(3)] by simp
    qed (use r in auto)
  qed
qed simp

text \<open>
  C23.  A watcher ends only on a rejected login, and then the user is de-enrolled: if \<open>watch_user\<close>
  returns, some session answered LOGIN with an error other than a lost connection, the stored
  secret is gone, and the user is no longer among the users to watch or to sync.
\<close>

theorem watch_returns_only_when_rejected:
  assumes "watch_user env e ss (w, st) = (Returned, t, w', st')" "plain_user e"
  shows "read_password (e_crypto env) w' e = Inl FileNotFoundError \<and> e \<notin> set (enrolled_users w') \<and>
    (\<exists>s\<in>set ss. \<exists>pw x. s_login s (upstream_user e) pw = Some x \<and> is_rejection x)"
  using assms unfolding watch_user_def by (rule watch_loop_returned)

text \<open>
  Lost connections never cost the user the enrolment: while no session rejects the login and no
  run of \<open>mbsync\<close> reports a rejected login, the watcher does not return and changes no file but
  the subscription marker, however often it reconnects.
\<close>

theorem watch_keeps_credentials:
  assumes "watch_user env e ss (w, st) = (r, t, w', st')" "plain_user e" "\<not> may_reject env"
    and "\<And>s pw x. s \<in> set ss \<Longrightarrow> s_login s (upstream_user e) pw = Some x \<Longrightarrow> \<not> is_rejection x"
  shows "r \<noteq> Returned \<and> (\<forall>q. q \<noteq> marker_path e \<longrightarrow> files w' q = files w q)"
proof -
  have r: "r \<noteq> Returned"
    using watch_loop_returned [of env e ss 5 w st t w' st'] assms by (auto simp: watch_user_def)
  with watch_loop_touched [OF assms(1) [unfolded watch_user_def]] assms(3)
  show ?thesis using touched_files by blast
qed

text \<open>
  Over any number of reconnects the folders are subscribed at most once: all SUBSCRIBE commands
  of a run are those of a single pass over the server's list, and there are none at all when
  the marker was there at the start.
\<close>

theorem watch_subscribes_once:
  assumes "watch_user env e ss (w, st) = (r, t, w', st')" "plain_user e" "''/mail/.creds/'' @ e \<in> set (dirs w)"
  shows "subs_of t = [] \<or> \<not> is_file w (marker_path e) \<and>
    (\<exists>names. list_data (l_list (e_local env)) = Inr names \<and> subs_of t = map Subscribe (snd (subscribe_all (e_local env) names)))"
  using assms unfolding watch_user_def by (rule watch_loop_subs)

lemma watch_pass_unreachable: "s_connect s \<noteq> None \<Longrightarrow> watch_pass env e s b ws = (Again, b, [], ws)"
  by (auto simp: watch_pass_def split: sum.split)

lemma watch_loop_unreachable:
  assumes "\<forall>s\<in>set ss. s_connect s \<noteq> None" "0 < b" "b \<le> 120"
  shows "fst (snd (watch_loop env e ss b ws)) = map (\<lambda>k. Sleep (min (b * 2 ^ k) 120)) [0..<length ss]"
  using assms
proof (induction ss arbitrary: b)
  case (Cons s ss)
  have "min (min (b * 2) 120 * 2 ^ k) 120 = min (b * 2 ^ Suc k) 120" for k
  proof (cases "b * 2 \<le> 120")
    case False
    then have b: "min (b * 2) 120 = 120" by simp
    have k: "(1::int) \<le> 2 ^ k" by simp
    have "(120::int) \<le> 120 * 2 ^ k" using k by linarith
    moreover have "120 * 2 ^ k \<le> b * 2 * (2 ^ k :: int)" using False by (intro mult_right_mono) simp_all
    moreover have "b * 2 * 2 ^ k = b * 2 ^ Suc k" by simp
    ultimately have "120 \<le> b * 2 ^ Suc k" by linarith
    with \<open>120 \<le> 120 * 2 ^ k\<close> b show ?thesis by (simp only: min_absorb2)
  qed (simp add: algebra_simps)
  moreover have "fst (snd (watch_loop env e ss (min (b * 2) 120) ws))
      = map (\<lambda>k. Sleep (min (min (b * 2) 120 * 2 ^ k) 120)) [0..<length ss]"
    using Cons by simp
  moreover have "[0..<length (s # ss)] = 0 # map Suc [0..<length ss]"
    by (simp add: upt_conv_Cons map_Suc_upt del: upt_Suc)
  moreover have "fst (snd (watch_loop env e (s # ss) b ws)) = Sleep b # fst (snd (watch_loop env e ss (min (b * 2) 120) ws))"
    using Cons.prems(1) watch_pass_unreachable [of s env e b ws] by (simp split: prod.split)
  moreover have "min (b * 2 ^ 0) 120 = b" using Cons.prems(3) by simp
  ultimately show ?case by (simp only: list.map map_map comp_def)
qed simp

text \<open>
  Retries are paced: every pause of a watcher is 5, 10, 20, 40, 80 or 120 seconds, and while the
  university cannot be reached they double up to 120.
\<close>

theorem watch_backoff:
  "(\<forall>d. Sleep d \<in> set (fst (snd (watch_user env e ss ws))) \<longrightarrow> d \<in> {5, 10, 20, 40, 80, 120}) \<and>
   ((\<forall>s\<in>set ss. s_connect s \<noteq> None) \<longrightarrow>
      fst (snd (watch_user env e ss ws)) = map (\<lambda>k. Sleep (min (5 * 2 ^ k) 120)) [0..<length ss])"
proof (intro conjI allI impI)
  fix d assume "Sleep d \<in> set (fst (snd (watch_user env e ss ws)))"
  then show "d \<in> {5, 10, 20, 40, 80, 120}"
    using watch_loop_sleeps [of env e ss 5 ws "fst (watch_user env e ss ws)" "fst (snd (watch_user env e ss ws))"
        "snd (snd (watch_user env e ss ws))" d] by (simp add: watch_user_def)
qed (use watch_loop_unreachable [of ss 5 env e ws] in \<open>simp add: watch_user_def\<close>)


subsection \<open>Runs on concrete input\<close>

definition sample_env :: "nat env" where
  "sample_env = \<lparr>e_crypto = toy_crypto, e_config = sample_config, e_mv_err = \<lambda>_. False, e_ts = lit ''7'',
     e_far = refusing_server, e_mbsync = \<lambda>cfg ch pw st. (Exited 0 [] [], st),
     e_local = \<lparr>l_connect = None, l_login = \<lambda>_ _. None, l_lsub = Inr (''OK'', [NoLine]), l_list = Inr (''OK'', [NoLine]),
       l_subscribe = \<lambda>_. Inr ''OK''\<rparr>, e_refresh = 1500\<rparr>"

text \<open>A session that cannot be opened, and one that rejects the login.\<close>

definition no_session :: session where
  "no_session = \<lparr>s_connect = Some OSError, s_login = \<lambda>_ _. None, s_caps = [], s_logout = None, s_select = None,
     s_wire = sample_wire []\<rparr>"

definition rejecting_session :: session where
  "rejecting_session = no_session\<lparr>s_connect := None, s_login := \<lambda>_ _. Some ImapError\<rparr>"

definition lost_session :: session where
  "lost_session = no_session\<lparr>s_connect := None, s_login := \<lambda>_ _. Some ImapAbort\<rparr>"

lemmas eval_watch = watch_user_def watch_pass_def sample_env_def no_session_def rejecting_session_def lost_session_def
  read_password_enrolled_box is_rejection_def

lemma watch_user_rejected:
  "watch_user sample_env ''a@b'' [no_session, lost_session, rejecting_session] (enrolled_box, sample_store)
     = (Returned, [Sleep 5, Sleep 10], deauth ''a@b'' enrolled_box, sample_store)"
  by (simp add: eval_watch)

lemma plain_ab: "plain_user ''a@b''"
  by (simp add: plain_user_def slash_free_def)

theorem watch_returns_only_when_rejected_witness:
  "''a@b'' \<notin> set (enrolled_users (deauth ''a@b'' enrolled_box))"
  using watch_returns_only_when_rejected [OF watch_user_rejected plain_ab] by simp

lemma sample_may_reject: "\<not> may_reject sample_env"
  by (simp add: may_reject_def sample_env_def login_rejected_def)

lemma watch_user_lost:
  "watch_user sample_env ''a@b'' [lost_session, lost_session] (enrolled_box, sample_store)
     = (Again, [Sleep 5, Sleep 10], enrolled_box, sample_store)"
  by (simp add: eval_watch)

theorem watch_keeps_credentials_witness:
  "files (fst (snd (snd (watch_user sample_env ''a@b'' [lost_session, lost_session] (enrolled_box, sample_store)))))
     MASTER_KEY_FILE = files enrolled_box MASTER_KEY_FILE"
  unfolding watch_user_lost fst_conv snd_conv
  using watch_keeps_credentials [OF watch_user_lost plain_ab sample_may_reject] marker_path_not [of "''a@b''", symmetric]
  by (simp add: lost_session_def is_rejection_def)

theorem watch_subscribes_once_witness:
  "subs_of (fst (snd (watch_user sample_env ''a@b'' [lost_session, lost_session] (enrolled_box, sample_store)))) = []"
  using watch_subscribes_once [OF watch_user_lost plain_ab] by (simp add: watch_user_lost subs_of_def)

theorem watch_backoff_witness:
  "fst (snd (watch_user sample_env ''a@b'' [no_session, no_session, no_session] (enrolled_box, sample_store))) = [Sleep 5, Sleep 10, Sleep 20]"
  using watch_backoff [of sample_env "''a@b''" "[no_session, no_session, no_session]" "(enrolled_box, sample_store)"]
  by (simp add: no_session_def upt_rec)

theorem subscribe_once_respects_selection_witness:
  "fst (subscribe_once (e_local sample_env) ''a@b'' ''pw'' (put_file (marker_path ''a@b'') (Bytes []) enrolled_box)) = []"
  using subscribe_once_respects_selection
    [of "put_file (marker_path ''a@b'') (Bytes []) enrolled_box" "''a@b''" "e_local sample_env" "''pw''"]
  by (simp add: is_file_def put_file_def)

end
