(* ===== verification/IdleThreads.thy ===== *)
theory IdleThreads
  imports IdleWatch
begin

text \<open>
  \<open>mail/idle.py\<close> as a process: the manager loop of \<open>main\<close>, the thread \<open>periodic\<close>, the watcher
  threads and the locks that keep their syncs apart.

  A \<open>proc\<close> holds the dictionary \<open>_locks\<close> (users to lock objects, numbered as they are made), the
  thread that owns each lock, the live threads, and the dictionary \<open>watchers\<close> of \<open>main\<close>.  A step
  is what one thread does between two points where another may run; \<open>_locks_guard\<close> makes the
  \<open>setdefault\<close> of \<open>_user_lock\<close> one step.  What the syncs do to the files is the subject of
  \<open>SyncEngine\<close> and \<open>IdleWatch\<close>.
\<close>

subsection \<open>The contract of a table of locks\<close>

locale registry =
  fixes lookup :: "'s \<Rightarrow> 'k \<Rightarrow> 'l option"
    and get :: "'k \<Rightarrow> 's \<Rightarrow> 'l \<times> 's"
    and ok :: "'s \<Rightarrow> bool"
  assumes get_found: "lookup (snd (get k s)) k = Some (fst (get k s))"
    and get_keeps: "lookup s j = Some l \<Longrightarrow> lookup (snd (get k s)) j = Some l"
    and ok_get: "ok s \<Longrightarrow> ok (snd (get k s))"
    and ok_inj: "ok s \<Longrightarrow> lookup s j = Some l \<Longrightarrow> lookup s k = Some l \<Longrightarrow> j = k"
begin

text \<open>Whatever is asked for in between, a key keeps its lock, and no other key gets it.\<close>

lemma lookup_stable: "lookup s j = Some l \<Longrightarrow> lookup (fold (\<lambda>k s. snd (get k s)) ks s) j = Some l"
  by (induction ks arbitrary: s) (simp_all add: get_keeps)

lemma ok_fold: "ok s \<Longrightarrow> ok (fold (\<lambda>k s. snd (get k s)) ks s)"
  by (induction ks arbitrary: s) (simp_all add: ok_get)

lemma get_again:
  assumes "ok s" "s' = fold (\<lambda>k s. snd (get k s)) ks (snd (get k s))"
  shows "fst (get j s') = fst (get k s) \<longleftrightarrow> j = k"
proof -
  have k: "lookup (snd (get j s')) k = Some (fst (get k s))"
    unfolding assms(2) by (intro get_keeps lookup_stable get_found)
  have ok: "ok (snd (get j s'))" unfolding assms(2) by (intro ok_get ok_fold assms(1))
  show ?thesis
  proof
    assume "fst (get j s') = fst (get k s)"
    with get_found [of j s'] have "lookup (snd (get j s')) j = Some (fst (get k s))" by simp
    from ok_inj [OF ok this k] show "j = k" .
  next
    assume "j = k"
    with get_found [of j s'] k show "fst (get j s') = fst (get k s)" by simp
  qed
qed

end

subsection \<open>State\<close>

datatype role = Periodic | Watcher string

text \<open>
  \<open>Waiting\<close>: in \<open>with _user_lock(email)\<close>, before the lock is acquired; \<open>Running\<close>: inside it, the
  list holds the boxes of the runs of \<open>sync_user\<close> that are left, the first one in progress.
\<close>

datatype pc = Ready
  | Waiting string nat "string option list"
  | Running string nat "string option list"

record proc =
  locks :: "string \<Rightarrow> nat option"
  next_lock :: nat
  owner :: "nat \<Rightarrow> nat option"
  threads :: "nat \<Rightarrow> (role \<times> pc) option"
  next_thread :: nat
  watchers :: "string \<Rightarrow> nat option"

subsection \<open>Operations\<close>

text \<open>\<open>_user_lock(email)\<close>.\<close>

definition user_lock :: "string \<Rightarrow> proc \<Rightarrow> nat \<times> proc" where
  "user_lock email p =
     (case locks p email of
        Some l \<Rightarrow> (l, p)
      | None \<Rightarrow> (next_lock p, p\<lparr>locks := (locks p)(email := Some (next_lock p)), next_lock := Suc (next_lock p)\<rparr>))"

definition start_thread :: "role \<Rightarrow> proc \<Rightarrow> nat \<times> proc" where
  "start_thread r p =
     (next_thread p, p\<lparr>threads := (threads p)(next_thread p := Some (r, Ready)), next_thread := Suc (next_thread p)\<rparr>)"

text \<open>The body of the loop over the enrolled users in \<open>main\<close>.\<close>

definition ensure_watcher :: "string \<Rightarrow> proc \<Rightarrow> proc" where
  "ensure_watcher email p =
     (if (case watchers p email of None \<Rightarrow> True | Some t \<Rightarrow> threads p t = None)
      then (case start_thread (Watcher email) p of (t, q) \<Rightarrow> q\<lparr>watchers := (watchers q)(email := Some t)\<rparr>)
      else p)"

definition rescan :: "string list \<Rightarrow> proc \<Rightarrow> proc" where
  "rescan users p = fold ensure_watcher users p"

definition started :: proc where
  "started = snd (start_thread Periodic \<lparr>locks = \<lambda>_. None, next_lock = 0, owner = \<lambda>_. None, threads = \<lambda>_. None,
     next_thread = 0, watchers = \<lambda>_. None\<rparr>)"

text \<open>The syncs of \<open>sync_all_folders\<close> and of \<open>sync_inbox\<close>.\<close>

definition all_boxes :: "string option list" where
  "all_boxes = [Some ''INBOX'', None]"

definition inbox_boxes :: "string option list" where
  "inbox_boxes = [Some ''INBOX'']"

definition set_pc :: "nat \<Rightarrow> role \<Rightarrow> pc \<Rightarrow> proc \<Rightarrow> proc" where
  "set_pc t r c p = p\<lparr>threads := (threads p)(t := Some (r, c))\<rparr>"

text \<open>
  The steps.  \<open>Ask\<close>: a thread enters \<open>sync_all_folders\<close> or, a watcher only, \<open>sync_inbox\<close>, for its
  user (\<open>periodic\<close>: any).  \<open>Release\<close>: the \<open>with\<close> block is left, by its end or by an exception.
  \<open>Return\<close>: a watcher's function returns; \<open>periodic\<close> never does.
\<close>

datatype label = Rescan "string list" | Ask nat string | Acquire nat | Next nat | Release nat | Return nat

inductive step :: "proc \<Rightarrow> label \<Rightarrow> proc \<Rightarrow> bool" where
  Rescan: "step p (Rescan users) (rescan users p)"
| Ask: "threads p t = Some (r, Ready) \<Longrightarrow> r = Periodic \<and> boxes = all_boxes \<or> r = Watcher e \<and> boxes \<in> {all_boxes, inbox_boxes} \<Longrightarrow>
    user_lock e p = (l, q) \<Longrightarrow> step p (Ask t e) (set_pc t r (Waiting e l boxes) q)"
| Acquire: "threads p t = Some (r, Waiting e l boxes) \<Longrightarrow> owner p l = None \<Longrightarrow>
    step p (Acquire t) (set_pc t r (Running e l boxes) (p\<lparr>owner := (owner p)(l := Some t)\<rparr>))"
| Next: "threads p t = Some (r, Running e l (b # bs)) \<Longrightarrow> bs \<noteq> [] \<Longrightarrow> step p (Next t) (set_pc t r (Running e l bs) p)"
| Release: "threads p t = Some (r, Running e l boxes) \<Longrightarrow>
    step p (Release t) (set_pc t r Ready (p\<lparr>owner := (owner p)(l := None)\<rparr>))"
| Return: "threads p t = Some (Watcher e, Ready) \<Longrightarrow> step p (Return t) (p\<lparr>threads := (threads p)(t := None)\<rparr>)"

inductive reachable :: "proc \<Rightarrow> bool" where
  start: "reachable started"
| trans: "reachable p \<Longrightarrow> step p lab q \<Longrightarrow> reachable q"

inductive_simps step_acquire: "step p (Acquire t) q"
inductive_simps step_release: "step p (Release t) q"

subsection \<open>The invariant\<close>

definition lock_table_ok :: "proc \<Rightarrow> bool" where
  "lock_table_ok p \<longleftrightarrow> (\<forall>e l. locks p e = Some l \<longrightarrow> l < next_lock p \<and> (\<forall>f. locks p f = Some l \<longrightarrow> e = f))"

definition pc_ok :: "proc \<Rightarrow> nat \<Rightarrow> pc \<Rightarrow> bool" where
  "pc_ok p t c = (case c of Ready \<Rightarrow> True | Waiting e l bs \<Rightarrow> locks p e = Some l
     | Running e l bs \<Rightarrow> locks p e = Some l \<and> owner p l = Some t)"

definition threads_ok :: "proc \<Rightarrow> bool" where
  "threads_ok p \<longleftrightarrow> (\<forall>t r c. threads p t = Some (r, c) \<longrightarrow> t < next_thread p \<and> pc_ok p t c
     \<and> (\<forall>e. r = Watcher e \<longrightarrow> watchers p e = Some t))"

definition owners_ok :: "proc \<Rightarrow> bool" where
  "owners_ok p \<longleftrightarrow> (\<forall>l t. owner p l = Some t \<longrightarrow> (\<exists>r e bs. threads p t = Some (r, Running e l bs)))"

definition watchers_ok :: "proc \<Rightarrow> bool" where
  "watchers_ok p \<longleftrightarrow> (\<forall>e t. watchers p e = Some t \<longrightarrow> t < next_thread p \<and> (\<forall>r c. threads p t = Some (r, c) \<longrightarrow> r = Watcher e))"

definition inv :: "proc \<Rightarrow> bool" where
  "inv p \<longleftrightarrow> lock_table_ok p \<and> threads_ok p \<and> owners_ok p \<and> watchers_ok p"

lemma threads_okD:
  assumes "threads_ok p" "threads p t = Some (r, c)"
  shows "t < next_thread p" "pc_ok p t c" "r = Watcher e \<Longrightarrow> watchers p e = Some t"
  using assms by (auto simp: threads_ok_def)

lemma owners_okD: "owners_ok p \<Longrightarrow> owner p l = Some t \<Longrightarrow> \<exists>r e bs. threads p t = Some (r, Running e l bs)"
  by (simp add: owners_ok_def)

lemma lock_table_okD: "lock_table_ok p \<Longrightarrow> locks p e = Some l \<Longrightarrow> locks p f = Some l \<Longrightarrow> e = f"
  by (auto simp: lock_table_ok_def)

interpretation reg: registry locks user_lock lock_table_ok
  by unfold_locales
    (auto simp: user_lock_def lock_table_ok_def less_Suc_eq split: option.splits if_splits)

lemma user_lock_frame:
  assumes "user_lock e p = (l, q)"
  shows "locks q e = Some l" "owner q = owner p" "threads q = threads p" "next_thread q = next_thread p"
    "watchers q = watchers p" "locks p f = Some k \<Longrightarrow> locks q f = Some k" "lock_table_ok p \<Longrightarrow> lock_table_ok q"
  using reg.get_found [of e p] reg.get_keeps [of p f k e] reg.ok_get [of p e] assms
  by (auto simp: user_lock_def split: option.splits)

lemma pc_ok_cong: "locks q = locks p \<Longrightarrow> owner q = owner p \<Longrightarrow> pc_ok q t c = pc_ok p t c"
  by (simp add: pc_ok_def split: pc.split)

lemma pc_ok_mono:
  assumes "pc_ok p t c" "\<And>e l. locks p e = Some l \<Longrightarrow> locks q e = Some l" "owner q = owner p"
  shows "pc_ok q t c"
  using assms by (auto simp: pc_ok_def split: pc.splits)

lemma inv_ensure_watcher:
  assumes "inv p"
  shows "inv (ensure_watcher e p)"
proof (cases "case watchers p e of None \<Rightarrow> True | Some t \<Rightarrow> threads p t = None")
  case True
  let ?n = "next_thread p"
  let ?q = "p\<lparr>threads := (threads p)(?n := Some (Watcher e, Ready)), next_thread := Suc ?n, watchers := (watchers p)(e := Some ?n)\<rparr>"
  have q: "ensure_watcher e p = ?q" using True by (simp add: ensure_watcher_def start_thread_def)
  have ok: "lock_table_ok p" "threads_ok p" "owners_ok p" "watchers_ok p" using assms by (simp_all add: inv_def)
  have "threads_ok ?q"
    unfolding threads_ok_def
  proof (intro allI impI conjI)
    fix t r c assume t: "threads ?q t = Some (r, c)"
    show "t < next_thread ?q" using t threads_okD(1) [OF ok(2)] by (auto split: if_splits intro: less_SucI)
    show "pc_ok ?q t c" using t threads_okD(2) [OF ok(2)]
      by (auto simp: pc_ok_cong [of ?q p] split: if_splits) (simp add: pc_ok_def)
    fix f assume "r = Watcher f"
    then show "watchers ?q f = Some t" using t True threads_okD(3) [OF ok(2)] by (auto split: if_splits option.splits)
  qed
  moreover have "threads p ?n = None" using threads_okD(1) [OF ok(2), of ?n] by (cases "threads p ?n") auto
  then have "owners_ok ?q" using owners_okD [OF ok(3)] by (fastforce simp: owners_ok_def)
  moreover have "lock_table_ok ?q" using ok(1) by (simp add: lock_table_ok_def)
  moreover have "watchers_ok ?q" using ok(4) by (fastforce simp: watchers_ok_def)
  ultimately show ?thesis by (simp only: q inv_def simp_thms)
qed (use assms in \<open>auto simp: ensure_watcher_def\<close>)

lemma inv_rescan: "inv p \<Longrightarrow> inv (rescan us p)"
  unfolding rescan_def by (induction us arbitrary: p) (simp_all add: inv_ensure_watcher)

lemma inv_started: "inv started"
  by (simp add: inv_def started_def start_thread_def lock_table_ok_def threads_ok_def owners_ok_def watchers_ok_def pc_ok_def)

text \<open>One thread moves from one point to another; the other threads stay where they are.\<close>

lemma threads_ok_set_pc:
  assumes "threads_ok p" "threads p t = Some (r, c)"
    and "threads p' = threads p" "next_thread p' = next_thread p" "watchers p' = watchers p"
    and "pc_ok p' t c'" "\<And>t' r' d. t' \<noteq> t \<Longrightarrow> threads p t' = Some (r', d) \<Longrightarrow> pc_ok p t' d \<Longrightarrow> pc_ok p' t' d"
  shows "threads_ok (set_pc t r c' p')"
  unfolding threads_ok_def
proof (intro allI impI)
  fix t' r' d assume t': "threads (set_pc t r c' p') t' = Some (r', d)"
  have pc: "pc_ok (set_pc t r c' p') t' d = pc_ok p' t' d" by (rule pc_ok_cong) (simp_all add: set_pc_def)
  show "t' < next_thread (set_pc t r c' p') \<and> pc_ok (set_pc t r c' p') t' d
      \<and> (\<forall>e. r' = Watcher e \<longrightarrow> watchers (set_pc t r c' p') e = Some t')"
  proof (cases "t' = t")
    case True
    with t' threads_okD [OF assms(1,2)] assms(3-6) show ?thesis unfolding pc by (auto simp: set_pc_def)
  next
    case False
    with t' assms(3) have old: "threads p t' = Some (r', d)" by (simp add: set_pc_def)
    with threads_okD [OF assms(1) old] assms(7) [OF False old] assms(4,5) show ?thesis unfolding pc by (simp add: set_pc_def)
  qed
qed

lemma owners_ok_set_pc:
  assumes "owners_ok p" "threads p' = threads p"
    and "\<And>l s. owner p' l = Some s \<Longrightarrow> if s = t then \<exists>e bs. c' = Running e l bs else owner p l = Some s"
  shows "owners_ok (set_pc t r c' p')"
  unfolding owners_ok_def
proof (intro allI impI)
  fix l s assume o: "owner (set_pc t r c' p') l = Some s"
  then show "\<exists>r' e bs. threads (set_pc t r c' p') s = Some (r', Running e l bs)"
    using assms(3) [of l s] owners_okD [OF assms(1), of l s] assms(2) by (cases "s = t") (auto simp: set_pc_def)
qed

lemma watchers_ok_set_pc:
  assumes "watchers_ok p" "threads p t = Some (r, c)" "threads p' = threads p" "next_thread p' = next_thread p" "watchers p' = watchers p"
  shows "watchers_ok (set_pc t r c' p')"
  using assms by (fastforce simp: watchers_ok_def set_pc_def)

lemma lock_table_ok_set_pc [simp]: "lock_table_ok (set_pc t r c p) = lock_table_ok p"
  by (simp add: lock_table_ok_def set_pc_def)

lemma inv_step:
  assumes "step p lab q" "inv p"
  shows "inv q"
  using assms(1)
proof cases
  case (Rescan users)
  with assms(2) show ?thesis by (simp add: inv_rescan)
next
  case (Ask t r boxes e l q')
  note f = user_lock_frame [OF Ask(5)]
  from assms(2) have ok: "lock_table_ok p" "threads_ok p" "owners_ok p" "watchers_ok p" by (simp_all add: inv_def)
  have "threads_ok q" unfolding Ask(2)
    by (rule threads_ok_set_pc [OF ok(2) Ask(3)]) (use f in \<open>auto simp: pc_ok_def split: pc.splits\<close>)
  moreover have "watchers_ok q" unfolding Ask(2) by (rule watchers_ok_set_pc [OF ok(4) Ask(3)]) (simp_all add: f)
  moreover have "owners_ok q" unfolding Ask(2)
    by (rule owners_ok_set_pc [OF ok(3)]) (use f(2,3) owners_okD [OF ok(3)] Ask(3) in \<open>auto dest!: owners_okD [OF ok(3)]\<close>)
  ultimately show ?thesis using f(7) [OF ok(1)] by (simp add: inv_def Ask(2))
next
  case (Acquire t r e l boxes)
  let ?p = "p\<lparr>owner := (owner p)(l := Some t)\<rparr>"
  from assms(2) have ok: "lock_table_ok p" "threads_ok p" "owners_ok p" "watchers_ok p" by (simp_all add: inv_def)
  have "threads_ok q" unfolding Acquire(2)
    by (rule threads_ok_set_pc [OF ok(2) Acquire(3)])
      (use Acquire(4) threads_okD(2) [OF ok(2) Acquire(3)] in \<open>auto simp: pc_ok_def split: pc.splits\<close>)
  moreover have "watchers_ok q" unfolding Acquire(2) by (rule watchers_ok_set_pc [OF ok(4) Acquire(3)]) simp_all
  moreover have "owners_ok q" unfolding Acquire(2)
    by (rule owners_ok_set_pc [OF ok(3)]) (use Acquire(3) in \<open>auto dest!: owners_okD [OF ok(3)] split: if_splits\<close>)
  moreover have "lock_table_ok ?p" using ok(1) by (simp add: lock_table_ok_def)
  ultimately show ?thesis by (simp add: inv_def Acquire(2))
next
  case (Next t r e l b bs)
  from assms(2) have ok: "lock_table_ok p" "threads_ok p" "owners_ok p" "watchers_ok p" by (simp_all add: inv_def)
  have "threads_ok q" unfolding Next(2)
    by (rule threads_ok_set_pc [OF ok(2) Next(3)]) (use threads_okD(2) [OF ok(2) Next(3)] in \<open>auto simp: pc_ok_def\<close>)
  moreover have "watchers_ok q" unfolding Next(2) by (rule watchers_ok_set_pc [OF ok(4) Next(3)]) simp_all
  moreover have "owners_ok q" unfolding Next(2)
    by (rule owners_ok_set_pc [OF ok(3)]) (use Next(3) in \<open>auto dest!: owners_okD [OF ok(3)]\<close>)
  ultimately show ?thesis using ok(1) by (simp add: inv_def Next(2))
next
  case (Release t r e l boxes)
  let ?p = "p\<lparr>owner := (owner p)(l := None)\<rparr>"
  from assms(2) have ok: "lock_table_ok p" "threads_ok p" "owners_ok p" "watchers_ok p" by (simp_all add: inv_def)
  have own: "owner p l = Some t" using threads_okD(2) [OF ok(2) Release(3)] by (simp add: pc_ok_def)
  have "threads_ok q" unfolding Release(2)
    by (rule threads_ok_set_pc [OF ok(2) Release(3)]) (use own in \<open>auto simp: pc_ok_def split: pc.splits\<close>)
  moreover have "watchers_ok q" unfolding Release(2) by (rule watchers_ok_set_pc [OF ok(4) Release(3)]) simp_all
  moreover have "owners_ok q" unfolding Release(2)
    by (rule owners_ok_set_pc [OF ok(3)]) (use Release(3) in \<open>auto dest!: owners_okD [OF ok(3)] split: if_splits\<close>)
  moreover have "lock_table_ok ?p" using ok(1) by (simp add: lock_table_ok_def)
  ultimately show ?thesis by (simp add: inv_def Release(2))
next
  case (Return t e)
  from assms(2) have ok: "lock_table_ok p" "threads_ok p" "owners_ok p" "watchers_ok p" by (simp_all add: inv_def)
  have "threads_ok q"
    using ok(2) unfolding Return(2) threads_ok_def
    by (simp add: pc_ok_cong [of "p\<lparr>threads := (threads p)(t := None)\<rparr>" p])
  moreover have "watchers_ok q" using ok(4) by (auto simp: Return(2) watchers_ok_def)
  moreover have "owners_ok q" using Return(3) by (auto simp: Return(2) owners_ok_def dest!: owners_okD [OF ok(3)])
  moreover have "lock_table_ok q" using ok(1) unfolding Return(2) by (simp add: lock_table_ok_def)
  ultimately show ?thesis by (simp add: inv_def)
qed

lemma inv_reachable: "reachable p \<Longrightarrow> inv p"
  by (induction rule: reachable.induct) (auto intro: inv_started inv_step)


text \<open>
  C24.  A push and the periodic run never overlap for one user: in every reachable state at most one
  thread is inside the syncs of a given user, so at most one \<open>mbsync\<close> works on a Maildir.
\<close>

theorem one_sync_per_user:
  assumes "reachable p"
    and "threads p t = Some (r, Running e l bs)" "threads p t' = Some (r', Running e l' bs')"
  shows "t = t' \<and> l = l'"
proof -
  have "threads_ok p" using inv_reachable [OF assms(1)] by (simp add: inv_def)
  from threads_okD(2) [OF this assms(2)] threads_okD(2) [OF this assms(3)] show ?thesis
    by (simp add: pc_ok_def)
qed

lemma ensure_watcher_keeps:
  assumes "inv p" "threads p t = Some x"
  shows "threads (ensure_watcher e p) t = Some x"
proof -
  have "t < next_thread p" using assms threads_okD(1) [of p t "fst x" "snd x"] by (simp add: inv_def)
  with assms(2) show ?thesis by (auto simp: ensure_watcher_def start_thread_def)
qed

lemma ensure_watcher_makes:
  assumes "inv p"
  shows "\<exists>s d. threads (ensure_watcher e p) s = Some (Watcher e, d)"
proof (cases "case watchers p e of None \<Rightarrow> True | Some t \<Rightarrow> threads p t = None")
  case True
  then show ?thesis by (auto simp: ensure_watcher_def start_thread_def)
next
  case False
  then obtain s r d where s: "watchers p e = Some s" "threads p s = Some (r, d)" by (auto split: option.splits)
  then have "r = Watcher e" using assms by (auto simp: inv_def watchers_ok_def)
  with s False show ?thesis by (auto simp: ensure_watcher_def)
qed

lemma rescan_keeps: "inv p \<Longrightarrow> threads p t = Some x \<Longrightarrow> threads (rescan us p) t = Some x"
  unfolding rescan_def by (induction us arbitrary: p) (simp_all add: ensure_watcher_keeps inv_ensure_watcher)

lemma rescan_makes: "inv p \<Longrightarrow> f \<in> set us \<Longrightarrow> \<exists>s d. threads (rescan us p) s = Some (Watcher f, d)"
proof (induction us arbitrary: p)
  case (Cons u us)
  show ?case
  proof (cases "f = u")
    case True
    from ensure_watcher_makes [OF Cons.prems(1), of u] obtain s d where "threads (ensure_watcher u p) s = Some (Watcher u, d)"
      by blast
    from rescan_keeps [OF inv_ensure_watcher [OF Cons.prems(1)] this, of us] show ?thesis
      using True by (auto simp: rescan_def)
  next
    case False
    with Cons show ?thesis using Cons.IH [OF inv_ensure_watcher [OF Cons.prems(1)], of u] by (simp add: rescan_def)
  qed
qed simp

lemma one_live_watcher: "inv p \<Longrightarrow> threads p t = Some (Watcher e, c) \<Longrightarrow> threads p s = Some (Watcher e, d) \<Longrightarrow> s = t"
  using threads_okD(3) [of p t "Watcher e" c e] threads_okD(3) [of p s "Watcher e" d e] by (simp add: inv_def)

text \<open>
  C25.  Each user has at most one live watcher, and \<open>main\<close> never starts a second one while the first
  lives: a rescan keeps a live watcher and leaves every listed user with exactly one.
\<close>

theorem one_watcher_per_user:
  assumes "reachable p" "threads p t = Some (Watcher e, c)"
  shows "(\<forall>t' c'. threads p t' = Some (Watcher e, c') \<longrightarrow> t' = t) \<and>
    threads (rescan us p) t = Some (Watcher e, c) \<and>
    (\<forall>f\<in>set us. \<exists>!s. \<exists>d. threads (rescan us p) s = Some (Watcher f, d))"
proof (intro conjI allI impI ballI)
  have inv: "inv p" "inv (rescan us p)" using inv_reachable [OF assms(1)] inv_rescan by blast+
  show "t' = t" if "threads p t' = Some (Watcher e, c')" for t' c'
    using one_live_watcher [OF inv(1) assms(2) that] .
  show "threads (rescan us p) t = Some (Watcher e, c)" by (rule rescan_keeps [OF inv(1) assms(2)])
  fix f assume "f \<in> set us"
  from rescan_makes [OF inv(1) this] show "\<exists>!s. \<exists>d. threads (rescan us p) s = Some (Watcher f, d)"
    using one_live_watcher [OF inv(2)] by blast
qed

text \<open>
  C26.  No deadlock: a thread that waits for a user's lock either can take it, or the thread that holds
  it is running that user's sync, can leave it, and then the waiting thread can take it.
\<close>

theorem waiting_thread_gets_lock:
  assumes "reachable p" "threads p t = Some (r, Waiting e l bs)"
  shows "(\<exists>q. step p (Acquire t) q) \<or>
    (\<exists>t' r' bs' q q'. threads p t' = Some (r', Running e l bs') \<and> step p (Release t') q \<and> step q (Acquire t) q')"
proof (cases "owner p l")
  case None
  then show ?thesis using assms(2) by (auto simp: step_acquire)
next
  case (Some t')
  have inv: "lock_table_ok p" "threads_ok p" "owners_ok p" using inv_reachable [OF assms(1)] by (simp_all add: inv_def)
  from owners_okD [OF inv(3) Some] obtain r' f bs' where run: "threads p t' = Some (r', Running f l bs')" by blast
  have "f = e" using threads_okD(2) [OF inv(2) run] threads_okD(2) [OF inv(2) assms(2)] lock_table_okD [OF inv(1)]
    by (auto simp: pc_ok_def)
  moreover have "t' \<noteq> t" using run assms(2) by auto
  ultimately show ?thesis using run assms(2)
    by (intro disjI2 exI [of _ t'] exI [of _ r'] exI [of _ bs']) (auto simp: step_acquire step_release set_pc_def)
qed


subsection \<open>A reachable state\<close>

text \<open>\<open>periodic\<close> syncs a user whose watcher waits for the lock.\<close>

definition scanned :: proc where
  "scanned = rescan [''a@b''] started"

definition asked :: proc where
  "asked = set_pc 0 Periodic (Waiting ''a@b'' 0 all_boxes) (snd (user_lock ''a@b'' scanned))"

definition syncing :: proc where
  "syncing = set_pc 0 Periodic (Running ''a@b'' 0 all_boxes) (asked\<lparr>owner := (owner asked)(0 := Some 0)\<rparr>)"

definition contended :: proc where
  "contended = set_pc 1 (Watcher ''a@b'') (Waiting ''a@b'' 0 inbox_boxes) (snd (user_lock ''a@b'' syncing))"

lemmas sample_defs = contended_def syncing_def asked_def scanned_def started_def rescan_def ensure_watcher_def
  start_thread_def set_pc_def user_lock_def

lemma reachable_contended: "reachable contended"
proof -
  have 1: "reachable scanned" unfolding scanned_def by (rule reachable.trans [OF reachable.start step.Rescan])
  have "step scanned (Ask 0 ''a@b'') asked" unfolding asked_def
    by (rule step.Ask [where l = 0]) (auto simp: sample_defs)
  from reachable.trans [OF 1 this] have 2: "reachable asked" .
  have "step asked (Acquire 0) syncing" unfolding syncing_def
    by (rule step.Acquire) (simp_all add: sample_defs)
  from reachable.trans [OF 2 this] have 3: "reachable syncing" .
  have "step syncing (Ask 1 ''a@b'') contended" unfolding contended_def
    by (rule step.Ask [where l = 0]) (simp_all add: sample_defs)
  from reachable.trans [OF 3 this] show ?thesis .
qed

lemma contended_threads:
  "threads contended 0 = Some (Periodic, Running ''a@b'' 0 all_boxes)"
  "threads contended 1 = Some (Watcher ''a@b'', Waiting ''a@b'' 0 inbox_boxes)"
  "owner contended 0 = Some 0"
  by (simp_all add: sample_defs)

theorem one_sync_per_user_witness:
  "\<forall>r l bs. threads contended 1 \<noteq> Some (r, Running ''a@b'' l bs)"
  using one_sync_per_user [OF reachable_contended contended_threads(1), of 1] by auto

theorem one_watcher_per_user_witness:
  "threads (rescan [''a@b'', ''c@d''] contended) 1 = Some (Watcher ''a@b'', Waiting ''a@b'' 0 inbox_boxes)"
  using one_watcher_per_user [OF reachable_contended contended_threads(2)] by blast

theorem waiting_thread_gets_lock_witness:
  "\<exists>q q'. step contended (Release 0) q \<and> step q (Acquire 1) q'"
proof -
  have "\<not> step contended (Acquire 1) q" for q
    using contended_threads by (auto simp: step_acquire)
  with waiting_thread_gets_lock [OF reachable_contended contended_threads(2)] obtain t r bs q q' where
    "threads contended t = Some (r, Running ''a@b'' 0 bs)" "step contended (Release t) q" "step q (Acquire 1) q'" by blast
  moreover have "t = 0" using calculation(1) contended_threads(2) by (auto simp: sample_defs split: if_splits)
  ultimately show ?thesis by blast
qed

end
