(* ===== verification/MailSystem.thy ===== *)
theory MailSystem
  imports Account RelaySend SpecialUse IdleThreads
begin

text \<open>
  The programs of the mail container on one set of files.

  An \<open>event\<close> is a run of one of them: a login (\<open>authcheck.main\<close>), a message to send
  (\<open>relaysend.main\<close>), a full sync (\<open>sync.main\<close>), the watcher of one user (\<open>idle.watch_user\<close>).
  \<open>special_use.main\<close> only reads the credentials.  A history is a list of events in the order in which
  they take effect; each of them is atomic here, \<open>IdleThreads\<close> has the interleaving of the
  syncs.  \<open>vouched\<close> collects the user and password of every login that the university accepted.
\<close>

subsection \<open>Events\<close>

record box =
  bx_crypto :: crypto
  bx_cooldown :: rat
  bx_decode :: "string \<Rightarrow> string"

datatype 'm event =
    Login uni_conn rat string "string option"
  | Send smtp "string list" string
  | SyncAll config "string \<Rightarrow> folder \<Rightarrow> bool" folder "string \<Rightarrow> imap_conn" "string \<Rightarrow> 'm mbsync"
  | Watch "'m env" string "session list"

fun apply_event :: "box \<Rightarrow> 'm event \<Rightarrow> world \<times> (string \<Rightarrow> 'm store) \<Rightarrow> world \<times> (string \<Rightarrow> 'm store)" where
  "apply_event bx (Login conn now raw argv1) (w, sts) =
     (snd (main (bx_crypto bx) (bx_cooldown bx) conn now (bx_decode bx) (Some raw) argv1 w), sts)"
| "apply_event bx (Send srv argv msg) (w, sts) = (snd (relay_main (bx_crypto bx) srv argv msg w), sts)"
| "apply_event bx (SyncAll cf mv_err ts conns mbsyncs) (w, sts) =
     snd (sync_main (bx_crypto bx) cf mv_err ts conns mbsyncs (w, sts))"
| "apply_event bx (Watch env e ss) (w, sts) =
     (case watch_user env e ss (w, sts e) of (r, t, w1, st1) \<Rightarrow> (w1, sts(e := st1)))"

definition run_events :: "box \<Rightarrow> 'm event list \<Rightarrow> world \<times> (string \<Rightarrow> 'm store) \<Rightarrow> world \<times> (string \<Rightarrow> 'm store)" where
  "run_events bx evs ws = fold (apply_event bx) evs ws"

text \<open>The user and the password of a login, as \<open>authcheck.main\<close> takes them from the descriptor.\<close>

definition login_of :: "box \<Rightarrow> string \<Rightarrow> string \<times> string" where
  "login_of bx raw =
     (case split_on (char_of (0::nat)) raw of
        [] \<Rightarrow> (normalize_user [], [])
      | [u] \<Rightarrow> (normalize_user (bx_decode bx u), [])
      | u # p # _ \<Rightarrow> (normalize_user (bx_decode bx u), bx_decode bx p))"

text \<open>
  The events of a box with plain user names: a name that is empty or holds a slash is outside what
  the files of a user are kept for (\<open>absolute_name_escapes_root\<close> shows what it does).
\<close>

fun event_ok :: "box \<Rightarrow> 'm event \<Rightarrow> bool" where
  "event_ok bx (Login conn now raw argv1) = slash_free (fst (login_of bx raw))"
| "event_ok bx (Send srv argv msg) = (case argv of _ # sender # _ \<Rightarrow> plain_user (normalize_user sender) | _ \<Rightarrow> True)"
| "event_ok bx (SyncAll cf mv_err ts conns mbsyncs) = True"
| "event_ok bx (Watch env e ss) = (e_crypto env = bx_crypto bx \<and> plain_user e)"

fun vouched_by :: "box \<Rightarrow> 'm event \<Rightarrow> (string \<times> string) set" where
  "vouched_by bx (Login conn now raw argv1) =
     (if case_prod (uni_accepts conn) (login_of bx raw) then {login_of bx raw} else {})"
| "vouched_by bx _ = {}"

definition vouched :: "box \<Rightarrow> 'm event list \<Rightarrow> (string \<times> string) set" where
  "vouched bx evs = (\<Union>ev\<in>set evs. vouched_by bx ev)"

text \<open>The credentials a box holds, and the invariant of its files.\<close>

definition stored :: "crypto \<Rightarrow> world \<Rightarrow> (string \<times> string) set" where
  "stored cr w = {(e, p). plain_user e \<and> read_password cr w e = Inr p}"

definition box_ok :: "crypto \<Rightarrow> world \<Rightarrow> bool" where
  "box_ok cr w \<longleftrightarrow> key_present w \<and> (\<forall>e. plain_user e \<longrightarrow> creds_ok cr w e)"

lemma stored_account: "(e, p) \<in> stored cr w \<longleftrightarrow> plain_user e \<and> ac_secret (account_of cr w e) = Some p"
  by (auto simp: stored_def account_of_def stored_secret_read_password split: sum.splits)

subsection \<open>What an event does to the credentials\<close>

text \<open>A change that keeps the invariant and adds at most \<open>new\<close> to the stored credentials.\<close>

definition safe_change :: "crypto \<Rightarrow> (string \<times> string) set \<Rightarrow> world \<Rightarrow> world \<Rightarrow> bool" where
  "safe_change cr new w w' \<longleftrightarrow> (box_ok cr w \<longrightarrow> box_ok cr w' \<and> stored cr w' \<subseteq> stored cr w \<union> new)"

lemma safe_same [simp]: "safe_change cr new w w"
  by (simp add: safe_change_def)

lemma safe_trans: "safe_change cr A w w' \<Longrightarrow> safe_change cr B w' w'' \<Longrightarrow> safe_change cr (A \<union> B) w w''"
  by (auto simp: safe_change_def)

lemma safe_weaken: "safe_change cr A w w' \<Longrightarrow> A \<subseteq> B \<Longrightarrow> safe_change cr B w w'"
  by (auto simp: safe_change_def)

text \<open>A change in one user's own files is safe if it is for this user.\<close>

lemma safe_own:
  assumes "plain_user e" "\<And>q. q \<notin> set (own_paths e) \<Longrightarrow> files w' q = files w q"
    and "box_ok cr w \<Longrightarrow> creds_ok cr w' e \<and> key_present w' \<and>
      (\<forall>p. ac_secret (account_of cr w' e) = Some p \<longrightarrow> ac_secret (account_of cr w e) = Some p \<or> (e, p) \<in> new)"
  shows "safe_change cr new w w'"
  unfolding safe_change_def
proof (intro impI conjI subsetI)
  assume ok: "box_ok cr w"
  have other: "account_of cr w' f = account_of cr w f" "creds_ok cr w' f = creds_ok cr w f"
    if "plain_user f" "e \<noteq> f" for f
    using account_other [OF assms(1) that assms(2)] by auto
  show "box_ok cr w'" unfolding box_ok_def
    using assms(3) [OF ok] other ok by (metis box_ok_def)
  fix x assume "x \<in> stored cr w'"
  then show "x \<in> stored cr w \<union> new"
    using assms(3) [OF ok] other by (cases x) (force simp: stored_account)
qed

lemma safe_deauth: "plain_user e \<Longrightarrow> safe_change cr {} w (deauth e w)"
  by (rule safe_own) (auto simp: files_deauth own_paths_def own_names_def account_deauth account_deauth_def no_account_def box_ok_def)

lemma safe_marker: "plain_user e \<Longrightarrow> safe_change cr {} w (write_marker e w)"
proof -
  assume e: "plain_user e"
  have "marker_path e \<notin> account_files f" if "plain_user f" for f
    using that e by (simp add: account_files_def marker_path_plain [symmetric] path_simps)
  then have "files (write_marker e w) q = files w q" if "q \<in> account_files f" "plain_user f" for f q
    using that by (auto simp: write_marker_def put_file_def)
  from account_cong [OF this] e show ?thesis
    by (auto simp: safe_change_def box_ok_def stored_account)
qed

lemma safe_touched: "touched e rej w w' \<Longrightarrow> plain_user e \<Longrightarrow> safe_change cr {} w w'"
  by (induction rule: touched.induct) (use safe_trans [of cr "{}" _ _ "{}"] safe_deauth safe_marker in auto)

lemma safe_sync_each:
  "sync_each cr cf mv_err ts conns mbsyncs us (w, sts) = (tr, w', sts') \<Longrightarrow> \<forall>u\<in>set us. plain_user u \<Longrightarrow> safe_change cr' {} w w'"
proof (induction us arbitrary: w sts tr)
  case (Cons u us)
  obtain calls w1 st1 where 1: "sync_user cr cf (mv_err u) ts (conns u) (mbsyncs u) u None (w, sts u) = (calls, w1, st1)"
    using prod_cases3 by blast
  then obtain tr' where "sync_each cr cf mv_err ts conns mbsyncs us (w1, sts(u := st1)) = (tr', w', sts')"
    using Cons.prems(1) by (auto split: prod.splits)
  from Cons.IH [OF this] Cons.prems(2) have "safe_change cr' {} w1 w'" by simp
  moreover have "safe_change cr' {} w w1" using sync_user_world [OF 1] safe_deauth Cons.prems(2) by auto
  ultimately show ?case using safe_trans [of cr' "{}" w w1 "{}" w'] by simp
qed simp

lemma main_login:
  assumes "login_of bx raw = (e, p)"
  shows "main cr cd conn now (bx_decode bx) (Some raw) argv1 w =
      (if p = [] \<or> CHR ''@'' \<notin> set e then (Exit 1, w)
       else (case authenticate cr cd conn now e p w of
               (Inl x, w1) \<Rightarrow> (exit_of x, w1)
             | (Inr False, w1) \<Rightarrow> (Exit 1, w1)
             | (Inr True, w1) \<Rightarrow> (case argv1 of None \<Rightarrow> (Exit 0, w1)
                 | Some r \<Rightarrow> if r = [] then (Exit 0, w1) else (Exec r e (''/mail/'' @ e), w1))))"
  using assms by (auto simp: main_def login_of_def Let_def split: list.splits)

lemma main_world:
  "snd (main cr cd conn now (bx_decode bx) (Some raw) argv1 w) = w \<or>
   CHR ''@'' \<in> set (fst (login_of bx raw)) \<and> snd (login_of bx raw) \<noteq> [] \<and>
   snd (main cr cd conn now (bx_decode bx) (Some raw) argv1 w) = snd (case_prod (authenticate cr cd conn now) (login_of bx raw) w)"
proof -
  obtain e p where l: "login_of bx raw = (e, p)" by fastforce
  show ?thesis unfolding main_login [OF l] by (simp add: l split: prod.split sum.split bool.split option.split)
qed

lemma account_login_secret:
  "snd (account_login cd conn now e p a) = a' \<Longrightarrow> ac_secret a' = Some q \<Longrightarrow>
   ac_secret a = Some q \<or> q = p \<and> uni_answer conn e p = Inr True"
  by (auto simp: account_login_def split: if_splits)

lemma uni_answer_True: "uni_answer conn e p = Inr True \<longleftrightarrow> uni_accepts conn e p"
  using uni_answer_verify verify_uni_True by metis

lemma safe_authenticate:
  assumes "ideal_crypto cr" "plain_user e"
  shows "safe_change cr (if uni_accepts conn e p then {(e, p)} else {}) w (snd (authenticate cr cd conn now e p w))"
proof (rule safe_own [OF assms(2)])
  fix q assume "q \<notin> set (own_paths e)"
  then show "files (snd (authenticate cr cd conn now e p w)) q = files w q" by (rule files_authenticate)
next
  assume "box_ok cr w"
  then have ok: "key_present w" "creds_ok cr w e" using assms(2) by (auto simp: box_ok_def)
  obtain r w' where a: "authenticate cr cd conn now e p w = (r, w')" by fastforce
  note acc = account_authenticate [OF assms ok a]
  show "creds_ok cr (snd (authenticate cr cd conn now e p w)) e \<and> key_present (snd (authenticate cr cd conn now e p w)) \<and>
      (\<forall>q. ac_secret (account_of cr (snd (authenticate cr cd conn now e p w)) e) = Some q \<longrightarrow>
         ac_secret (account_of cr w e) = Some q \<or> (e, q) \<in> (if uni_accepts conn e p then {(e, p)} else {}))"
    using acc account_login_secret [of cd conn now e p "account_of cr w e" "account_of cr w' e"]
    by (auto simp: a uni_answer_True dest: arg_cong [where f = snd])
qed

lemma authenticate_sources:
  "authenticate cr cd conn now e p w = (Inr True, w') \<Longrightarrow> verify_local cr w e p \<or> uni_accepts conn e p"
  using vouch_True [of cr cd conn now e p w] by (auto simp: authenticate_def split: if_splits)

lemma safe_relay:
  assumes "case argv of _ # sender # _ \<Rightarrow> plain_user (normalize_user sender) | _ \<Rightarrow> True"
  shows "safe_change cr {} w (snd (relay_main cr srv argv msg w))"
proof (cases "\<exists>prog sender r rs. argv = prog # sender # r # rs")
  case True
  then obtain prog sender r rs where a: "argv = prog # sender # r # rs" by blast
  with assms show ?thesis
    by (auto simp: relay_main_cases safe_deauth split: sum.split prod.split)
next
  case False
  then have "snd (relay_main cr srv argv msg w) = w"
    by (cases argv; cases "tl argv"; cases "tl (tl argv)") (auto simp: relay_main_def)
  then show ?thesis by simp
qed

lemma safe_event:
  assumes "ideal_crypto (bx_crypto bx)" "event_ok bx ev" "apply_event bx ev (w, sts) = (w', sts')"
  shows "safe_change (bx_crypto bx) (vouched_by bx ev) w w'"
proof (cases ev)
  case (Login conn now raw argv1)
  obtain e p where l: "login_of bx raw = (e, p)" by fastforce
  from assms(3) Login have w': "w' = snd (main (bx_crypto bx) (bx_cooldown bx) conn now (bx_decode bx) (Some raw) argv1 w)" by simp
  show ?thesis
  proof (cases "w' = w")
    case False
    with main_world [of "bx_crypto bx" "bx_cooldown bx" conn now bx raw argv1 w] l w'
    have "CHR ''@'' \<in> set e" "w' = snd (authenticate (bx_crypto bx) (bx_cooldown bx) conn now e p w)" by auto
    moreover from this assms(2) Login l have "plain_user e" by (auto simp: plain_user_def)
    ultimately show ?thesis
      using safe_authenticate [OF assms(1), of e conn p w "bx_cooldown bx" now] Login l by (simp split: if_splits)
  qed simp
next
  case (Send srv argv msg)
  with assms safe_relay [of argv "bx_crypto bx" w srv msg] show ?thesis by simp
next
  case (SyncAll cf mv_err ts conns mbsyncs)
  with assms(3) safe_sync_each [of "bx_crypto bx" cf mv_err ts conns mbsyncs "enrolled_users w" w sts] show ?thesis
    by (cases "sync_main (bx_crypto bx) cf mv_err ts conns mbsyncs (w, sts)") (auto simp: sync_main_def dest: enrolled_users_plain)
next
  case (Watch env e ss)
  obtain r t w1 st1 where "watch_user env e ss (w, sts e) = (r, t, w1, st1)" by (cases "watch_user env e ss (w, sts e)")
  with assms Watch safe_touched [OF watch_loop_touched] show ?thesis by (auto simp: watch_user_def)
qed

lemma run_events_simps [simp]:
  "run_events bx [] ws = ws" "run_events bx (ev # evs) ws = run_events bx evs (apply_event bx ev ws)"
  by (simp_all add: run_events_def)

lemma vouched_simps [simp]: "vouched bx [] = {}" "vouched bx (ev # evs) = vouched_by bx ev \<union> vouched bx evs"
  "vouched bx (evs @ evs') = vouched bx evs \<union> vouched bx evs'"
  by (simp_all add: vouched_def)

lemma safe_run:
  assumes "ideal_crypto (bx_crypto bx)" "\<forall>ev\<in>set evs. event_ok bx ev" "run_events bx evs (w, sts) = (w', sts')"
  shows "safe_change (bx_crypto bx) (vouched bx evs) w w'"
  using assms(2,3)
proof (induction evs arbitrary: w sts)
  case (Cons ev evs)
  obtain w1 sts1 where 1: "apply_event bx ev (w, sts) = (w1, sts1)" by fastforce
  from Cons.prems 1 have "safe_change (bx_crypto bx) (vouched bx evs) w1 w'" by (intro Cons.IH) auto
  with safe_event [OF assms(1) _ 1] Cons.prems(1) show ?case by (auto intro: safe_trans)
qed simp

text \<open>A box on which nobody is enrolled yet.\<close>

definition new_box :: "world \<Rightarrow> bool" where
  "new_box w \<longleftrightarrow> key_present w \<and> (\<forall>e. plain_user e \<longrightarrow> (\<forall>n\<in>set own_names. read_file w (cred_path e n) = None))"

lemma new_box_ok: "new_box w \<Longrightarrow> box_ok cr w \<and> stored cr w = {}"
  by (auto simp: new_box_def box_ok_def creds_ok_def stored_account account_of_def stored_secret_def own_names_def)

end
