(* ===== verification/Ownership.thy ===== *)
theory Ownership
  imports MailSystem
begin

text \<open>
  Who can read the stored credentials.

  The login runs with the rights to \<open>chown\<close>, the syncs and watchers as the mail user.  Each file of
  the store is therefore to be closed to everybody else (mode 0600), and the hash and the secret are
  to belong to the mail user.  The cooldown marker is rewritten before the university is asked, so
  it stays with the login's own user when the login is refused; nothing but a login reads it.
\<close>

definition secrets_private :: "world \<Rightarrow> string \<Rightarrow> bool" where
  "secrets_private w e \<longleftrightarrow>
     (\<forall>n\<in>{''passhash'', ''upass.enc'', ''last_uni''}. \<forall>c m. files w (cred_path e n) = Some (c, m) \<longrightarrow>
        m = 384 \<and> (n \<noteq> ''last_uni'' \<longrightarrow> handed_over w (cred_path e n)))"

text \<open>A change that leaves a user's files, and takes none of them from the mail user.\<close>

lemma secrets_private_mono:
  assumes "secrets_private w e"
    and "\<And>n. n \<in> {''passhash'', ''upass.enc'', ''last_uni''} \<Longrightarrow>
      files w' (cred_path e n) \<in> {None, files w (cred_path e n)} \<and> (handed_over w (cred_path e n) \<longrightarrow>
        files w' (cred_path e n) \<noteq> None \<longrightarrow> handed_over w' (cred_path e n))"
  shows "secrets_private w' e"
  unfolding secrets_private_def
proof (intro ballI allI impI)
  fix n c m assume n: "n \<in> {''passhash'', ''upass.enc'', ''last_uni''}" "files w' (cred_path e n) = Some (c, m)"
  with assms(2) [OF n(1)] have "files w (cred_path e n) = Some (c, m)" by auto
  with assms(1) n(1) have "m = 384 \<and> (n \<noteq> ''last_uni'' \<longrightarrow> handed_over w (cred_path e n))"
    unfolding secrets_private_def by blast
  with assms(2) [OF n(1)] n(2) show "m = 384 \<and> (n \<noteq> ''last_uni'' \<longrightarrow> handed_over w' (cred_path e n))" by auto
qed

subsection \<open>Owners after each operation\<close>

lemma may_chown_frame [simp]:
  "may_chown (deauth e w) = may_chown w" "may_chown (write_marker e w) = may_chown w"
  "may_chown (snd (verify_uni conn now e p w)) = may_chown w" "may_chown (snd (cooldown_ok cd now e w)) = may_chown w"
  "handed_over (snd (verify_uni conn now e p w)) = handed_over w"
  by (simp_all add: deauth_def write_marker_def verify_uni_def cooldown_ok_def Let_def split: option.splits)

lemma may_chown_enroll [simp]: "may_chown (snd (enroll cr e p w)) = may_chown w"
  by (simp add: enroll_def Let_def split: sum.splits)

lemma handed_over_deauth:
  "handed_over (deauth e w) q \<longleftrightarrow>
     q \<notin> {cred_path e ''passhash'', cred_path e ''upass.enc'', cred_path e ''last_uni''} \<and> handed_over w q"
  by (auto simp: deauth_def remove_file_def)

lemma handed_over_marker: "q \<noteq> marker_path e \<Longrightarrow> handed_over (write_marker e w) q = handed_over w q"
  by (simp add: write_marker_def put_file_def)

lemma handed_over_cooldown:
  "q \<noteq> cred_path e ''last_uni'' \<Longrightarrow> q \<noteq> cred_path e ''last_uni'' @ ''.tmp'' \<Longrightarrow>
   handed_over (snd (cooldown_ok cd now e w)) q = handed_over w q"
  by (simp add: cooldown_ok_def Let_def handed_over_write_atomic)

lemma handed_over_enroll:
  "q \<notin> set (own_paths e) \<Longrightarrow> handed_over w q \<Longrightarrow> handed_over (snd (enroll cr e p w)) q"
  using cred_path_in_own [of e]
  by (auto simp: enroll_def Let_def own_account_def handed_over_write_atomic split: sum.splits)

lemma handed_over_authenticate:
  assumes "q \<notin> set (own_paths e)" "handed_over w q"
  shows "handed_over (snd (authenticate cr cd conn now e p w)) q"
proof -
  have q: "q \<noteq> cred_path e ''last_uni''" "q \<noteq> cred_path e ''last_uni'' @ ''.tmp''"
    using assms(1) cred_path_in_own [of e] by auto
  obtain b w1 where c: "cooldown_ok cd now e w = (b, w1)" by fastforce
  obtain r w2 where v: "verify_uni conn now e p w1 = (r, w2)" by fastforce
  obtain r' w3 where n: "enroll cr e p w2 = (r', w3)" by fastforce
  have "handed_over w1 q" using handed_over_cooldown [OF q, of cd now w] c assms(2) by simp
  moreover have "handed_over w2 = handed_over w1" using may_chown_frame(5) [of conn now e p w1] v by simp
  moreover have "handed_over w2 q \<Longrightarrow> handed_over w3 q" using handed_over_enroll [OF assms(1), of w2 cr p] n by simp
  ultimately show ?thesis using assms(2)
    by (simp add: authenticate_def vouch_def c v n split: bool.splits sum.splits)
qed

subsection \<open>Every operation keeps the secrets private\<close>

lemma base_name_join:
  assumes "slash_free n"
  shows "base_name (path_join a n) = n"
proof -
  have "\<not> prefix ''/'' n" using assms by (auto simp: slash_free_def prefix_def)
  then obtain b where b: "path_join a n = b @ n" "b = [] \<or> last b = CHR ''/''"
    using that [of a] that [of "a @ ''/''"]
    by (cases "a = [] \<or> last a = CHR ''/''") (simp_all add: path_join_def)
  have "takeWhile (\<lambda>c. c \<noteq> CHR ''/'') (rev n @ rev b) = rev n @ takeWhile (\<lambda>c. c \<noteq> CHR ''/'') (rev b)"
    using assms by (intro takeWhile_append2) (auto simp: slash_free_def)
  moreover have "takeWhile (\<lambda>c. c \<noteq> CHR ''/'') (rev b) = []"
    using b(2) by (cases b rule: rev_cases) simp_all
  ultimately show ?thesis by (simp add: base_name_def b(1))
qed

lemma in_listing_cred_path:
  assumes "plain_user e" "slash_free n" "files w (cred_path e n) \<noteq> None"
  shows "in_listing w (creds_dir e) (cred_path e n)"
proof -
  have "base_name (cred_path e n) = n"
    using base_name_join [OF assms(2)] by (simp add: cred_path_def)
  then show ?thesis using assms(3) by (simp add: in_listing_def exists_path_def is_file_def cred_path_def)
qed

lemma enroll_private:
  assumes "plain_user e" "key_present w" "may_chown w"
    and "\<And>c m. files w (cred_path e ''last_uni'') = Some (c, m) \<Longrightarrow> m = 384"
  shows "secrets_private (snd (enroll cr e p w)) e"
proof -
  obtain w3 where w3: "snd (enroll cr e p w) = own_account (creds_dir e) (''/mail/'' @ e) (makedirs (''/mail/'' @ e) w3)"
    "may_chown w3" "files w3 (cred_path e ''last_uni'') = files w (cred_path e ''last_uni'')"
    "\<exists>c. files w3 (cred_path e ''passhash'') = Some (c, 384)" "\<exists>c. files w3 (cred_path e ''upass.enc'') = Some (c, 384)"
  proof -
    obtain tok where "encrypt_secret cr w p = Inr tok"
      using assms(2) by (auto simp: key_present_def encrypt_secret_def split: option.splits)
    then show ?thesis
      using assms(1,3) by (intro that [of "write_atomic (cred_path e ''upass.enc'') (Bytes tok)
          (write_atomic (cred_path e ''passhash'') (Bytes (crypt cr p (mksalt cr))) (makedirs (creds_dir e) w))"])
        (simp_all add: enroll_def Let_def encrypt_after_passhash files_write_atomic path_simps)
  qed
  have l: "in_listing (makedirs (''/mail/'' @ e) w3) (creds_dir e) (cred_path e n)"
    if "files w3 (cred_path e n) \<noteq> None" "slash_free n" for n
    using in_listing_cred_path [OF assms(1) that(2)] that(1) by simp
  show ?thesis
    unfolding secrets_private_def w3(1)
    using w3(2-5) l [of "''passhash''"] l [of "''upass.enc''"] assms(4)
    by (auto simp: own_account_def slash_free_def makedirs_def)
qed

lemma cooldown_marker_mode:
  assumes "secrets_private w e" "files (snd (cooldown_ok cd now e w)) (cred_path e ''last_uni'') = Some (c, m)"
  shows "m = 384"
  using assms by (auto simp: cooldown_ok_def Let_def files_write_atomic secrets_private_def split: if_splits)

lemma authenticate_private:
  assumes "plain_user e" "key_present w" "may_chown w" "secrets_private w e"
  shows "secrets_private (snd (authenticate cr cd conn now e p w)) e"
proof -
  obtain b w1 where c: "cooldown_ok cd now e w = (b, w1)" by fastforce
  obtain r w2 where v: "verify_uni conn now e p w1 = (r, w2)" by fastforce
  have f2: "files w2 = files w1" "handed_over w2 = handed_over w1" "may_chown w2 = may_chown w1"
    using verify_uni_frame(1) [of conn now e p w1] may_chown_frame(3,5) [of conn now e p w1] v by simp_all
  have f1: "may_chown w1" "\<And>q. q \<noteq> cred_path e ''last_uni'' \<Longrightarrow> q \<noteq> cred_path e ''last_uni'' @ ''.tmp'' \<Longrightarrow>
      files w1 q = files w q \<and> handed_over w1 q = handed_over w q"
    "\<And>c m. files w1 (cred_path e ''last_uni'') = Some (c, m) \<Longrightarrow> m = 384"
    using may_chown_frame(4) [of cd now e w] files_cooldown [of _ e cd now w] handed_over_cooldown [of _ e cd now w]
      cooldown_marker_mode [OF assms(4), of cd now] assms(3) c by auto
  have "cred_path e ''last_uni'' \<noteq> MASTER_KEY_FILE" "cred_path e ''last_uni'' @ ''.tmp'' \<noteq> MASTER_KEY_FILE"
    using own_paths_not_key [OF assms(1)] cred_path_in_own [of e] by metis+
  then have k: "key_present w2" using assms(2) f1(2) f2(1) by (simp add: key_present_def read_file_def)
  have kept: "secrets_private w2 e"
    unfolding secrets_private_def f2
    using assms(1,4) f1(2,3) by (auto simp: secrets_private_def path_simps)
  have "secrets_private w1 e" using kept f2 by (simp add: secrets_private_def)
  moreover have "secrets_private (snd (enroll cr e p w2)) e"
    using enroll_private [OF assms(1) k] f1(1,3) f2 by simp
  ultimately show ?thesis using kept assms(4)
    by (auto simp: authenticate_def vouch_def c v split: bool.split sum.split prod.split)
qed

text \<open>A login leaves the secrets of the others alone.\<close>

lemma authenticate_private_other:
  assumes "plain_user e" "plain_user f" "e \<noteq> f" "secrets_private w f"
  shows "secrets_private (snd (authenticate cr cd conn now e p w)) f"
  using assms(4)
proof (rule secrets_private_mono)
  fix n assume "n \<in> {''passhash'', ''upass.enc'', ''last_uni''}"
  then have "slash_free n" by (auto simp: slash_free_def)
  note q = own_paths_other [OF assms(1-3) this]
  show "files (snd (authenticate cr cd conn now e p w)) (cred_path f n) \<in> {None, files w (cred_path f n)} \<and>
      (handed_over w (cred_path f n) \<longrightarrow> files (snd (authenticate cr cd conn now e p w)) (cred_path f n) \<noteq> None \<longrightarrow>
        handed_over (snd (authenticate cr cd conn now e p w)) (cred_path f n))"
    using files_authenticate [OF q] handed_over_authenticate [OF q] by simp
qed

lemma deauth_private: "secrets_private w f \<Longrightarrow> secrets_private (deauth e w) f"
  by (rule secrets_private_mono) (auto simp: files_deauth handed_over_deauth)

lemma marker_private: "plain_user e \<Longrightarrow> plain_user f \<Longrightarrow> secrets_private w f \<Longrightarrow> secrets_private (write_marker e w) f"
proof (erule secrets_private_mono)
  fix n assume p: "plain_user e" "plain_user f" "n \<in> {''passhash'', ''upass.enc'', ''last_uni''}"
  then have "cred_path f n \<noteq> marker_path e" by (auto simp: marker_path_plain [symmetric] path_simps)
  then show "files (write_marker e w) (cred_path f n) \<in> {None, files w (cred_path f n)} \<and>
      (handed_over w (cred_path f n) \<longrightarrow> files (write_marker e w) (cred_path f n) \<noteq> None \<longrightarrow>
        handed_over (write_marker e w) (cred_path f n))"
    by (simp add: handed_over_marker) (simp add: write_marker_def put_file_def)
qed

subsection \<open>The secrets of all users\<close>

definition owners_ok :: "world \<Rightarrow> bool" where
  "owners_ok w \<longleftrightarrow> may_chown w \<and> (\<forall>e. plain_user e \<longrightarrow> secrets_private w e)"

lemma owners_deauth: "owners_ok w \<Longrightarrow> owners_ok (deauth e w)"
  by (simp add: owners_ok_def deauth_private)

lemma owners_touched: "touched e rej w w' \<Longrightarrow> plain_user e \<Longrightarrow> owners_ok w \<Longrightarrow> owners_ok w'"
  by (induction rule: touched.induct) (auto simp: owners_ok_def deauth_private marker_private)

lemma owners_sync_each:
  "sync_each cr cf mv_err ts conns mbsyncs us (w, sts) = (tr, w', sts') \<Longrightarrow> owners_ok w \<Longrightarrow> owners_ok w'"
proof (induction us arbitrary: w sts tr)
  case (Cons u us)
  obtain calls w1 st1 where 1: "sync_user cr cf (mv_err u) ts (conns u) (mbsyncs u) u None (w, sts u) = (calls, w1, st1)"
    using prod_cases3 by blast
  then obtain tr' where "sync_each cr cf mv_err ts conns mbsyncs us (w1, sts(u := st1)) = (tr', w', sts')"
    using Cons.prems(1) by (auto split: prod.splits)
  from Cons.IH [OF this] sync_user_world [OF 1] Cons.prems(2) show ?case by (auto intro: owners_deauth)
qed simp

lemma owners_relay: "owners_ok w \<Longrightarrow> owners_ok (snd (relay_main cr srv argv msg w))"
proof (cases "\<exists>prog sender r rs. argv = prog # sender # r # rs")
  case False
  then have "snd (relay_main cr srv argv msg w) = w"
    by (cases argv; cases "tl argv"; cases "tl (tl argv)") (auto simp: relay_main_def)
  then show "owners_ok w \<Longrightarrow> ?thesis" by simp
qed (auto simp: relay_main_cases owners_deauth split: sum.split prod.split)

lemma owners_authenticate:
  assumes "plain_user e" "key_present w" "owners_ok w"
  shows "owners_ok (snd (authenticate cr cd conn now e p w))"
proof -
  have "may_chown (snd (authenticate cr cd conn now e p w)) = may_chown w"
  proof -
    obtain b w1 where c: "cooldown_ok cd now e w = (b, w1)" by fastforce
    obtain r w2 where v: "verify_uni conn now e p w1 = (r, w2)" by fastforce
    obtain r' w3 where n: "enroll cr e p w2 = (r', w3)" by fastforce
    have "may_chown w1 = may_chown w" "may_chown w2 = may_chown w1" "may_chown w3 = may_chown w2"
      using may_chown_frame(4) [of cd now e w] may_chown_frame(3) [of conn now e p w1] may_chown_enroll [of cr e p w2] c v n
      by simp_all
    then show ?thesis by (simp add: authenticate_def vouch_def c v n split: bool.splits sum.splits)
  qed
  moreover have "secrets_private (snd (authenticate cr cd conn now e p w)) f" if "plain_user f" for f
    using assms that authenticate_private [of e w cr cd conn now p] authenticate_private_other [OF assms(1) that]
    by (cases "e = f") (auto simp: owners_ok_def)
  ultimately show ?thesis using assms(3) by (simp add: owners_ok_def)
qed

lemma owners_event:
  assumes "event_ok bx ev" "apply_event bx ev (w, sts) = (w', sts')" "key_present w" "owners_ok w"
  shows "owners_ok w'"
proof (cases ev)
  case (Login conn now raw argv1)
  obtain e p where l: "login_of bx raw = (e, p)" by fastforce
  from assms(2) Login have w': "w' = snd (main (bx_crypto bx) (bx_cooldown bx) conn now (bx_decode bx) (Some raw) argv1 w)" by simp
  show ?thesis
  proof (cases "w' = w")
    case False
    with main_world [of "bx_crypto bx" "bx_cooldown bx" conn now bx raw argv1 w] l w'
    have "CHR ''@'' \<in> set e" "w' = snd (authenticate (bx_crypto bx) (bx_cooldown bx) conn now e p w)" by auto
    moreover from this assms(1) Login l have "plain_user e" by (auto simp: plain_user_def)
    ultimately show ?thesis using owners_authenticate [OF _ assms(3,4)] by simp
  qed (use assms(4) in simp)
next
  case (Send srv argv msg)
  with assms(2,4) owners_relay [of w "bx_crypto bx" srv argv msg] show ?thesis by simp
next
  case (SyncAll cf mv_err ts conns mbsyncs)
  with assms(2,4) owners_sync_each [of "bx_crypto bx" cf mv_err ts conns mbsyncs "enrolled_users w" w sts] show ?thesis
    by (cases "sync_main (bx_crypto bx) cf mv_err ts conns mbsyncs (w, sts)") (auto simp: sync_main_def)
next
  case (Watch env e ss)
  obtain r t w1 st1 where "watch_user env e ss (w, sts e) = (r, t, w1, st1)" by (cases "watch_user env e ss (w, sts e)")
  with assms Watch owners_touched [OF watch_loop_touched] show ?thesis by (auto simp: watch_user_def)
qed

lemma owners_run:
  assumes "ideal_crypto (bx_crypto bx)" "\<forall>ev\<in>set evs. event_ok bx ev" "run_events bx evs (w, sts) = (w', sts')"
    and "box_ok (bx_crypto bx) w" "owners_ok w"
  shows "owners_ok w'"
  using assms(2-5)
proof (induction evs arbitrary: w sts)
  case (Cons ev evs)
  obtain w1 sts1 where 1: "apply_event bx ev (w, sts) = (w1, sts1)" by fastforce
  from Cons.prems(1) have ok: "event_ok bx ev" "\<forall>ev\<in>set evs. event_ok bx ev" by auto
  from safe_event [OF assms(1) ok(1) 1] Cons.prems(3) have "box_ok (bx_crypto bx) w1" by (auto simp: safe_change_def)
  moreover from owners_event [OF ok(1) 1] Cons.prems(3,4) have "owners_ok w1" by (auto simp: box_ok_def)
  ultimately show ?case using Cons.IH [OF ok(2)] Cons.prems(2) 1 by simp
qed simp

lemma new_box_owners: "new_box w \<Longrightarrow> may_chown w \<Longrightarrow> owners_ok w"
  by (fastforce simp: new_box_def owners_ok_def secrets_private_def own_names_def read_file_def)

end
