(* ===== verification/WatchStats.thy ===== *)
theory WatchStats
  imports Prelude
begin

text \<open>
  \<open>watchdog/watchdog.py\<close>: the statistics (\<open>class Stats\<close>).

  Times and durations are exact rationals, as are the sums the program keeps in floats.  A
  calendar day is its number since 1970-01-01 (UTC), so the order of the numbers is the order of
  the program's keys \<open>YYYY-MM-DD\<close>; a timestamp rendered by \<open>iso\<close> is its whole second.  The
  environment variables are the fields of \<open>knobs\<close>, any integers.  \<open>disk\<close> is the directory
  \<open>STATS_DIR\<close>: the snapshot in \<open>state.json\<close>, the rows in \<open>daily.json\<close> and the lines of
  \<open>outages.jsonl\<close>; while \<open>d_broken\<close> holds, every write fails (the program logs that and goes on).
  JSON text is not modelled: a file holds the value it encodes.
\<close>

record knobs =
  INTERVAL :: int
  FAIL_INTERVAL :: int
  FAIL_THRESHOLD :: int
  START_GRACE :: int
  MAX_DAYS :: int
  MAX_OUTAGES :: int
  MAX_SAMPLES :: int
  LOG_SUMMARY_EVERY :: int
  DAILY_SUMMARY :: bool
  UPSTREAM :: bool

subsection \<open>Time and numbers\<close>

text \<open>\<open>round(x)\<close>: to the nearest integer, halves to the even one; \<open>round(x, 1)\<close>.\<close>

definition round_even :: "rat \<Rightarrow> int" where
  "round_even x = (let f = \<lfloor>x\<rfloor>; d = x - of_int f in
     if d < 1 / 2 then f else if d > 1 / 2 then f + 1 else if even f then f else f + 1)"

definition round1 :: "rat \<Rightarrow> rat" where
  "round1 x = of_int (round_even (x * 10)) / 10"

text \<open>\<open>datetime.fromtimestamp\<close> rounds to microseconds.\<close>

definition day_key :: "rat \<Rightarrow> int" where
  "day_key ts = round_even (ts * 1000000) div (86400 * 1000000)"

definition iso :: "rat \<Rightarrow> int" where
  "iso ts = round_even (ts * 1000000) div 1000000"

definition show_int :: "int \<Rightarrow> string" where
  "show_int n = (if n < 0 then ''-'' @ show_nat (nat (- n)) else show_nat (nat n))"

definition two_digits :: "int \<Rightarrow> string" where
  "two_digits n = (if 0 \<le> n \<and> n < 10 then ''0'' @ show_int n else show_int n)"

definition fmt_dur :: "rat \<Rightarrow> string" where
  "fmt_dur seconds =
     (let s = round_even seconds in
      if s < 60 then show_int s @ ''s''
      else if s < 3600 then show_int (s div 60) @ ''m'' @ two_digits (s mod 60) @ ''s''
      else show_int (s div 3600) @ ''h'' @ two_digits ((s mod 3600) div 60) @ ''m'')"

subsection \<open>State\<close>

record life =
  first_seen :: "int option"
  monitored_s :: rat
  up_s :: rat
  down_s :: rat
  probes_ok :: nat
  probes_fail :: nat
  outages :: nat
  alerted_outages :: nat

record row =
  r_up :: rat
  r_down :: rat
  r_monitored :: rat
  r_ok :: nat
  r_fail :: nat
  r_outages :: nat
  r_longest :: rat

type_synonym rows = "(int \<times> row) list"

record outage =
  o_start :: rat
  o_start_iso :: int
  o_probes :: nat
  o_errors :: "string list"
  o_samples :: "(rat \<times> rat \<times> string) list"
  o_alerted :: bool
  o_boot :: nat

text \<open>A finished outage as it is logged; \<open>last_outage\<close> keeps it without samples and boot.\<close>

record summary =
  f_start :: int
  f_end :: int
  f_duration_s :: rat
  f_duration_h :: string
  f_probes :: nat
  f_alerted :: bool
  f_errors :: "string list"

record finished = summary +
  f_samples :: "(rat \<times> rat \<times> string) list"
  f_boot :: nat

record stats =
  lifetime :: life
  daily :: rows
  boot_count :: nat
  last_probe_at :: "rat option"
  last_healthy :: "bool option"
  current_outage :: "outage option"
  last_outage :: "summary option"

record snapshot =
  sn_lifetime :: life
  sn_boot_count :: nat
  sn_last_probe_at :: "rat option"
  sn_healthy :: bool
  sn_current_outage :: "outage option"
  sn_last_outage :: "summary option"

record disk =
  d_state :: "snapshot option"
  d_daily :: "rows option"
  d_outages :: "finished list"
  d_broken :: bool

definition attribute_cap :: "knobs \<Rightarrow> rat" where
  "attribute_cap kn = of_int (max (2 * INTERVAL kn) 120)"

definition new_life :: life where
  "new_life = \<lparr>first_seen = None, monitored_s = 0, up_s = 0, down_s = 0, probes_ok = 0, probes_fail = 0,
     outages = 0, alerted_outages = 0\<rparr>"

definition new_row :: row where
  "new_row = \<lparr>r_up = 0, r_down = 0, r_monitored = 0, r_ok = 0, r_fail = 0, r_outages = 0, r_longest = 0\<rparr>"

subsection \<open>Loading and saving\<close>

text \<open>\<open>Stats.__init__\<close> with \<open>_load\<close>: a file that is missing or unreadable (\<open>None\<close>) counts as empty.\<close>

definition load :: "disk \<Rightarrow> stats" where
  "load d =
     (let dl = (case d_daily d of None \<Rightarrow> [] | Some r \<Rightarrow> r) in
      case d_state d of
        None \<Rightarrow> \<lparr>lifetime = new_life, daily = dl, boot_count = 1, last_probe_at = None, last_healthy = None,
                 current_outage = None, last_outage = None\<rparr>
      | Some sn \<Rightarrow> \<lparr>lifetime = sn_lifetime sn, daily = dl, boot_count = sn_boot_count sn + 1,
                 last_probe_at = sn_last_probe_at sn, last_healthy = Some (sn_healthy sn),
                 current_outage = sn_current_outage sn, last_outage = sn_last_outage sn\<rparr>)"

definition save :: "bool \<Rightarrow> stats \<Rightarrow> disk \<Rightarrow> disk" where
  "save healthy s d =
     (if d_broken d then d
      else d\<lparr>d_state := Some \<lparr>sn_lifetime = lifetime s, sn_boot_count = boot_count s, sn_last_probe_at = last_probe_at s,
                sn_healthy = healthy, sn_current_outage = current_outage s, sn_last_outage = last_outage s\<rparr>,
             d_daily := Some (daily s)\<rparr>)"

text \<open>\<open>_append_outage\<close>; \<open>lines[-0:]\<close> is the whole list.\<close>

definition append_outage :: "knobs \<Rightarrow> finished \<Rightarrow> disk \<Rightarrow> disk" where
  "append_outage kn r d =
     (if d_broken d then d
      else let lines = d_outages d @ [r] in
        d\<lparr>d_outages := (if int (length lines) > MAX_OUTAGES kn then slice_from (- MAX_OUTAGES kn) lines else lines)\<rparr>)"

subsection \<open>Accounting\<close>

text \<open>
  \<open>_day(ts)\<close>: the rows afterwards.  The row it returns is the one of this day, unless pruning
  removed that very row; then what is added to it is lost.  \<open>on_day\<close> is an update through the
  returned reference.
\<close>

definition day :: "knobs \<Rightarrow> rat \<Rightarrow> rows \<Rightarrow> rows" where
  "day kn ts d =
     (let k = day_key ts in
      case map_of d k of
        Some b \<Rightarrow> d
      | None \<Rightarrow>
          (let d1 = d @ [(k, new_row)] in
           if int (length d1) > MAX_DAYS kn
           then filter (\<lambda>e. fst e \<notin> set (slice_to (- MAX_DAYS kn) (sort (map fst d1)))) d1
           else d1))"

definition on_day :: "rat \<Rightarrow> (row \<Rightarrow> row) \<Rightarrow> rows \<Rightarrow> rows" where
  "on_day ts f d = map (\<lambda>(k, b). if k = day_key ts then (k, f b) else (k, b)) d"

definition account :: "knobs \<Rightarrow> rat \<Rightarrow> stats \<Rightarrow> stats" where
  "account kn ts s =
     (case last_probe_at s of
        None \<Rightarrow> s
      | Some prev \<Rightarrow>
          (if ts - prev \<le> 0 then s
           else let gap = min (ts - prev) (attribute_cap kn);
                    up = (last_healthy s = Some True);
                    l = lifetime s
                in s\<lparr>daily := on_day ts (\<lambda>b. if up then b\<lparr>r_monitored := r_monitored b + gap, r_up := r_up b + gap\<rparr>
                                              else b\<lparr>r_monitored := r_monitored b + gap, r_down := r_down b + gap\<rparr>)
                                 (day kn ts (daily s)),
                     lifetime := (if up then l\<lparr>monitored_s := monitored_s l + gap, up_s := up_s l + gap\<rparr>
                                  else l\<lparr>monitored_s := monitored_s l + gap, down_s := down_s l + gap\<rparr>)\<rparr>))"

definition close_outage :: "knobs \<Rightarrow> rat \<Rightarrow> outage \<Rightarrow> stats \<times> disk \<Rightarrow> stats \<times> disk" where
  "close_outage kn ts oc sd =
     (case sd of (s, d) \<Rightarrow>
       (let duration = ts - o_start oc;
            r = \<lparr>f_start = o_start_iso oc, f_end = iso ts, f_duration_s = round1 duration, f_duration_h = fmt_dur duration,
                 f_probes = o_probes oc, f_alerted = o_alerted oc, f_errors = o_errors oc,
                 f_samples = o_samples oc, f_boot = o_boot oc\<rparr>
        in (s\<lparr>lifetime := (lifetime s)\<lparr>outages := Suc (outages (lifetime s))\<rparr>,
              daily := on_day ts (\<lambda>b. b\<lparr>r_outages := Suc (r_outages b),
                           r_longest := if duration > r_longest b then round1 duration else r_longest b\<rparr>)
                         (day kn ts (daily s)),
              last_outage := Some (summary.truncate r),
              current_outage := None\<rparr>,
            append_outage kn r d)))"

text \<open>The record of a failed probe in the outage it belongs to.\<close>

definition open_outage :: "rat \<Rightarrow> nat \<Rightarrow> outage" where
  "open_outage ts boot = \<lparr>o_start = ts, o_start_iso = iso ts, o_probes = 0, o_errors = [], o_samples = [],
     o_alerted = False, o_boot = boot\<rparr>"

definition add_failure :: "knobs \<Rightarrow> rat \<Rightarrow> string \<Rightarrow> rat \<Rightarrow> outage \<Rightarrow> outage" where
  "add_failure kn ts detail latency oc =
     oc\<lparr>o_probes := Suc (o_probes oc),
        o_errors := (if detail \<notin> set (o_errors oc) \<and> length (o_errors oc) < 10 then o_errors oc @ [detail] else o_errors oc),
        o_samples := (if int (length (o_samples oc)) < MAX_SAMPLES kn
                      then o_samples oc @ [(round1 (ts - o_start oc), round1 latency, take 80 detail)]
                      else o_samples oc)\<rparr>"

text \<open>\<open>Stats.record\<close>; the result tells whether an outage ended.\<close>

definition record_probe :: "knobs \<Rightarrow> rat \<Rightarrow> bool \<Rightarrow> string \<Rightarrow> rat \<Rightarrow> stats \<times> disk \<Rightarrow> bool \<times> stats \<times> disk" where
  "record_probe kn ts healthy detail latency sd =
     (case sd of (s, d) \<Rightarrow>
       (let s1 = account kn ts s;
            s2 = (if first_seen (lifetime s1) = None then s1\<lparr>lifetime := (lifetime s1)\<lparr>first_seen := Some (iso ts)\<rparr>\<rparr> else s1);
            s3 = s2\<lparr>daily := day kn ts (daily s2)\<rparr>;
            s4 = (if healthy
                  then s3\<lparr>lifetime := (lifetime s3)\<lparr>probes_ok := Suc (probes_ok (lifetime s3))\<rparr>,
                          daily := on_day ts (\<lambda>b. b\<lparr>r_ok := Suc (r_ok b)\<rparr>) (daily s3)\<rparr>
                  else s3\<lparr>lifetime := (lifetime s3)\<lparr>probes_fail := Suc (probes_fail (lifetime s3))\<rparr>,
                          daily := on_day ts (\<lambda>b. b\<lparr>r_fail := Suc (r_fail b)\<rparr>) (daily s3)\<rparr>)
        in case (if healthy
                 then (case current_outage s4 of
                         None \<Rightarrow> (False, s4, d)
                       | Some oc \<Rightarrow> (True, close_outage kn ts oc (s4, d)))
                 else (False,
                   s4\<lparr>current_outage := Some (add_failure kn ts detail latency
                        (case current_outage s4 of None \<Rightarrow> open_outage ts (boot_count s4) | Some oc \<Rightarrow> oc))\<rparr>, d)) of
             (ev, s5, d1) \<Rightarrow> (ev, s5\<lparr>last_probe_at := Some ts, last_healthy := Some healthy\<rparr>, d1)))"

definition mark_alerted :: "stats \<Rightarrow> stats" where
  "mark_alerted s =
     (case current_outage s of
        None \<Rightarrow> s
      | Some oc \<Rightarrow>
          (if o_alerted oc then s
           else s\<lparr>current_outage := Some (oc\<lparr>o_alerted := True\<rparr>),
                  lifetime := (lifetime s)\<lparr>alerted_outages := Suc (alerted_outages (lifetime s))\<rparr>\<rparr>))"

subsection \<open>Reporting\<close>

text \<open>\<open>_window(days)\<close> with today's number.\<close>

definition window :: "int \<Rightarrow> nat \<Rightarrow> rows \<Rightarrow> rat \<times> rat" where
  "window today days d =
     (let bs = map (\<lambda>i. map_of d (today - int i)) [0..<days] in
      (sum_list (map (\<lambda>b. case b of None \<Rightarrow> 0 | Some b \<Rightarrow> r_up b) bs),
       sum_list (map (\<lambda>b. case b of None \<Rightarrow> 0 | Some b \<Rightarrow> r_down b) bs)))"

text \<open>\<open>_pct\<close>: two decimals.\<close>

definition pct :: "rat \<Rightarrow> rat \<Rightarrow> string" where
  "pct up down =
     (if up + down \<le> 0 then ''n/a''
      else let n = round_even (100 * up / (up + down) * 100)
           in show_int (n div 100) @ ''.'' @ two_digits (n mod 100) @ ''%'')"

record uptime =
  u_24h :: string
  u_7d :: string
  u_30d :: string
  u_all :: string
  u_since :: "int option"
  u_outages :: nat
  u_alerted :: nat

definition uptime_summary :: "int \<Rightarrow> stats \<Rightarrow> uptime" where
  "uptime_summary today s =
     \<lparr>u_24h = case_prod pct (window today 1 (daily s)),
      u_7d = case_prod pct (window today 7 (daily s)),
      u_30d = case_prod pct (window today 30 (daily s)),
      u_all = pct (up_s (lifetime s)) (down_s (lifetime s)),
      u_since = first_seen (lifetime s),
      u_outages = outages (lifetime s),
      u_alerted = alerted_outages (lifetime s)\<rparr>"

subsection \<open>Logs that stay bounded\<close>

locale bounded_log =
  fixes size_of :: "'s \<Rightarrow> nat" and add :: "'x \<Rightarrow> 's \<Rightarrow> 's" and cap :: nat
  assumes add_bound: "size_of s \<le> cap \<Longrightarrow> size_of (add x s) \<le> cap"
begin

lemma fold_bound: "size_of s \<le> cap \<Longrightarrow> size_of (fold add xs s) \<le> cap"
  by (induction xs arbitrary: s) (simp_all add: add_bound)

end

text \<open>The errors and the samples of an outage, and the log of outages for a positive limit.\<close>

interpretation errors: bounded_log "\<lambda>oc. length (o_errors oc)" "\<lambda>(ts, detail, lat). add_failure kn ts detail lat" 10
  by unfold_locales (auto simp: add_failure_def)

interpretation samples: bounded_log "\<lambda>oc. length (o_samples oc)" "\<lambda>(ts, detail, lat). add_failure kn ts detail lat"
  "nat (MAX_SAMPLES kn)"
  by unfold_locales (auto simp: add_failure_def)

lemma append_outage_bound:
  "0 < MAX_OUTAGES kn \<Longrightarrow> length (d_outages d) \<le> nat (MAX_OUTAGES kn) \<Longrightarrow>
   length (d_outages (append_outage kn r d)) \<le> nat (MAX_OUTAGES kn)"
  using length_slice_from_neg [of "MAX_OUTAGES kn" "d_outages d @ [r]"] by (auto simp: append_outage_def Let_def)

subsection \<open>Pruning the rows\<close>

definition pruned_keys :: "knobs \<Rightarrow> rows \<Rightarrow> int set" where
  "pruned_keys kn d = set (slice_to (- MAX_DAYS kn) (sort (map fst d)))"

lemma length_filter_keys:
  assumes "distinct (map fst d)" "S \<subseteq> fst ` set d"
  shows "length (filter (\<lambda>e. fst e \<notin> S) d) + card S = length d"
proof -
  have "length (filter (\<lambda>e. fst e \<notin> S) d) = card (fst ` set d - S)"
  proof -
    have "distinct (map fst (filter (\<lambda>e. fst e \<notin> S) d))" using assms(1) by (rule distinct_map_filter)
    from distinct_card [OF this] have "length (filter (\<lambda>e. fst e \<notin> S) d) = card (fst ` {e \<in> set d. fst e \<notin> S})" by simp
    also have "fst ` {e \<in> set d. fst e \<notin> S} = fst ` set d - S" by auto
    finally show ?thesis .
  qed
  moreover have "length d = card (fst ` set d)" using distinct_card [OF assms(1)] by simp
  moreover have "finite S" using assms(2) finite_subset by blast
  ultimately show ?thesis using assms(2) by (simp add: card_Diff_subset card_mono)
qed

lemma prune_length:
  assumes "distinct (map fst d)" "0 < MAX_DAYS kn" "MAX_DAYS kn < int (length d)"
  shows "int (length (filter (\<lambda>e. fst e \<notin> pruned_keys kn d) d)) = MAX_DAYS kn"
proof -
  let ?n = "length d - nat (MAX_DAYS kn)"
  have p: "pruned_keys kn d = set (take ?n (sort (map fst d)))"
    using assms(2) by (simp add: pruned_keys_def slice_to_neg)
  have "pruned_keys kn d \<subseteq> fst ` set d" unfolding p using set_take_subset by fastforce
  moreover have "card (pruned_keys kn d) = ?n"
    unfolding p using assms by (subst distinct_card) (auto simp: min_def)
  ultimately show ?thesis using length_filter_keys [OF assms(1), of "pruned_keys kn d"] assms(2,3) by linarith
qed

text \<open>Every row that is removed is older than every row that is kept.\<close>

lemma prune_removes_oldest:
  assumes "distinct (map fst d)" "0 < MAX_DAYS kn" "k \<in> pruned_keys kn d" "k' \<in> fst ` set d" "k' \<notin> pruned_keys kn d"
  shows "k < k'"
proof -
  let ?s = "sort (map fst d)" and ?n = "length d - nat (MAX_DAYS kn)"
  have p: "pruned_keys kn d = set (take ?n ?s)"
    using assms(2) by (simp add: pruned_keys_def slice_to_neg)
  have "set ?s = set (take ?n ?s) \<union> set (drop ?n ?s)" by (metis append_take_drop_id set_append)
  then have "k' \<in> set (drop ?n ?s)" using assms(4,5) p by auto
  moreover have "sorted (take ?n ?s @ drop ?n ?s)" by simp
  ultimately have "k \<le> k'" using assms(3) p unfolding sorted_append by blast
  with assms(3,5) show ?thesis by (cases "k = k'") auto
qed

lemma day_cases:
  obtains (found) "day kn ts d = d" "day_key ts \<in> fst ` set d"
  | (added) "day kn ts d = d @ [(day_key ts, new_row)]" "day_key ts \<notin> fst ` set d"
      "int (length d) < MAX_DAYS kn"
  | (pruned) "day kn ts d = filter (\<lambda>e. fst e \<notin> pruned_keys kn (d @ [(day_key ts, new_row)])) (d @ [(day_key ts, new_row)])"
      "day_key ts \<notin> fst ` set d" "MAX_DAYS kn \<le> int (length d)"
proof (cases "map_of d (day_key ts)")
  case None
  then have n: "day_key ts \<notin> fst ` set d" by (simp add: map_of_eq_None_iff)
  show ?thesis
  proof (cases "int (length d) < MAX_DAYS kn")
    case True
    with None n show ?thesis by (intro added) (auto simp: day_def Let_def)
  next
    case False
    with None n show ?thesis by (intro pruned) (auto simp: day_def Let_def pruned_keys_def)
  qed
next
  case (Some b)
  then show ?thesis by (intro found) (auto simp: day_def Let_def dest: map_of_SomeD intro: image_eqI [rotated])
qed

lemma day_distinct: "distinct (map fst d) \<Longrightarrow> distinct (map fst (day kn ts d))"
  by (cases rule: day_cases [of kn ts d]) (auto simp: distinct_map_filter simp del: filter_append)

lemma day_set: "e \<in> set (day kn ts d) \<Longrightarrow> e \<in> set d \<or> e = (day_key ts, new_row)"
  by (cases rule: day_cases [of kn ts d]) (auto split: if_splits)

lemma day_length:
  assumes "distinct (map fst d)" "0 < MAX_DAYS kn" "int (length d) \<le> MAX_DAYS kn"
  shows "int (length (day kn ts d)) \<le> MAX_DAYS kn"
proof (cases rule: day_cases [of kn ts d])
  case pruned
  have "distinct (map fst (d @ [(day_key ts, new_row)]))" using assms(1) pruned(2) by auto
  from prune_length [OF this assms(2)] pruned(3) show ?thesis unfolding pruned(1) by simp
qed (use assms in auto)

lemma on_day_keys [simp]: "map fst (on_day ts f d) = map fst d" "length (on_day ts f d) = length d"
  by (auto simp: on_day_def)

lemma on_day_set: "(k, b) \<in> set (on_day ts f d) \<Longrightarrow> (k, b) \<in> set d \<or> k = day_key ts \<and> (\<exists>b'. (k, b') \<in> set d \<and> b = f b')"
  by (auto simp: on_day_def split: if_splits)


subsection \<open>The invariant of the statistics\<close>

definition row_ok :: "row \<Rightarrow> bool" where
  "row_ok b \<longleftrightarrow> r_up b + r_down b = r_monitored b \<and> 0 \<le> r_up b \<and> 0 \<le> r_down b"

definition rows_ok :: "knobs \<Rightarrow> rows \<Rightarrow> bool" where
  "rows_ok kn d \<longleftrightarrow> distinct (map fst d) \<and> (\<forall>e\<in>set d. row_ok (snd e))
     \<and> (0 < MAX_DAYS kn \<longrightarrow> int (length d) \<le> MAX_DAYS kn)"

definition life_ok :: "life \<Rightarrow> bool" where
  "life_ok l \<longleftrightarrow> up_s l + down_s l = monitored_s l \<and> 0 \<le> up_s l \<and> 0 \<le> down_s l"

definition outage_ok :: "knobs \<Rightarrow> outage \<Rightarrow> bool" where
  "outage_ok kn oc \<longleftrightarrow> length (o_errors oc) \<le> 10 \<and> distinct (o_errors oc) \<and> length (o_samples oc) \<le> nat (MAX_SAMPLES kn)
     \<and> (\<forall>(a, b, det) \<in> set (o_samples oc). length det \<le> 80)"

definition open_alerts :: "stats \<Rightarrow> nat" where
  "open_alerts s = (case current_outage s of None \<Rightarrow> 0 | Some oc \<Rightarrow> if o_alerted oc then 1 else 0)"

text \<open>An outage is open exactly while the last probe failed.\<close>

definition stats_ok :: "knobs \<Rightarrow> stats \<times> disk \<Rightarrow> bool" where
  "stats_ok kn sd = (case sd of (s, d) \<Rightarrow>
     life_ok (lifetime s) \<and> rows_ok kn (daily s)
     \<and> (case current_outage s of None \<Rightarrow> True | Some oc \<Rightarrow> outage_ok kn oc)
     \<and> (current_outage s \<noteq> None \<longleftrightarrow> last_healthy s = Some False)
     \<and> alerted_outages (lifetime s) \<le> outages (lifetime s) + open_alerts s
     \<and> (0 < MAX_OUTAGES kn \<longrightarrow> length (d_outages d) \<le> nat (MAX_OUTAGES kn)))"


lemma rows_ok_day: "rows_ok kn d \<Longrightarrow> rows_ok kn (day kn ts d)"
  unfolding rows_ok_def
  by (auto simp: day_distinct day_length dest!: day_set [of _ kn ts d]) (auto simp: row_ok_def new_row_def)

lemma rows_ok_on_day: "rows_ok kn d \<Longrightarrow> (\<And>b. row_ok b \<Longrightarrow> row_ok (f b)) \<Longrightarrow> rows_ok kn (on_day ts f d)"
  unfolding rows_ok_def by (fastforce dest: on_day_set)

lemma attribute_cap_pos: "0 < attribute_cap kn"
  by (simp add: attribute_cap_def)

text \<open>What accounting adds: the capped gap, to the side the last probe was on.\<close>

definition credit :: "knobs \<Rightarrow> rat \<Rightarrow> stats \<Rightarrow> rat" where
  "credit kn ts s = (case last_probe_at s of None \<Rightarrow> 0 | Some prev \<Rightarrow> max 0 (min (ts - prev) (attribute_cap kn)))"

lemma credit_bounds: "0 \<le> credit kn ts s" "credit kn ts s \<le> attribute_cap kn"
  using attribute_cap_pos [of kn] by (auto simp: credit_def split: option.split)

lemma account_lifetime:
  "lifetime (account kn ts s) = (lifetime s)\<lparr>monitored_s := monitored_s (lifetime s) + credit kn ts s,
     up_s := up_s (lifetime s) + (if last_healthy s = Some True then credit kn ts s else 0),
     down_s := down_s (lifetime s) + (if last_healthy s = Some True then 0 else credit kn ts s)\<rparr>"
  using attribute_cap_pos [of kn] by (auto simp: account_def credit_def Let_def split: option.split)

lemma account_frame [simp]:
  "current_outage (account kn ts s) = current_outage s" "last_healthy (account kn ts s) = last_healthy s"
  "boot_count (account kn ts s) = boot_count s" "last_outage (account kn ts s) = last_outage s"
  "last_probe_at (account kn ts s) = last_probe_at s"
  by (simp_all add: account_def Let_def split: option.split)

lemma account_rows: "rows_ok kn (daily s) \<Longrightarrow> rows_ok kn (daily (account kn ts s))"
  using attribute_cap_pos [of kn]
  by (auto simp: account_def Let_def row_ok_def split: option.split intro!: rows_ok_on_day rows_ok_day)

lemma life_ok_account: "life_ok (lifetime s) \<Longrightarrow> life_ok (lifetime (account kn ts s))"
  using credit_bounds(1) [of kn ts s] by (auto simp: account_lifetime life_ok_def)


subsection \<open>One probe\<close>

definition failing :: "knobs \<Rightarrow> rat \<Rightarrow> string \<Rightarrow> rat \<Rightarrow> stats \<Rightarrow> outage" where
  "failing kn ts detail latency s = add_failure kn ts detail latency
     (case current_outage s of None \<Rightarrow> open_outage ts (boot_count s) | Some oc \<Rightarrow> oc)"

lemmas record_defs = record_probe_def close_outage_def failing_def Let_def

lemma record_probe_effect:
  assumes "record_probe kn ts h det lat (s, d) = (ev, s', d')"
  shows "ev = (h \<and> current_outage s \<noteq> None)"
    "current_outage s' = (if h then None else Some (failing kn ts det lat s))"
    "last_probe_at s' = Some ts" "last_healthy s' = Some h" "boot_count s' = boot_count s"
    "monitored_s (lifetime s') = monitored_s (lifetime (account kn ts s))"
    "up_s (lifetime s') = up_s (lifetime (account kn ts s))"
    "down_s (lifetime s') = down_s (lifetime (account kn ts s))"
    "alerted_outages (lifetime s') = alerted_outages (lifetime s)"
    "outages (lifetime s') = outages (lifetime s) + (if ev then 1 else 0)"
    "probes_ok (lifetime s') = probes_ok (lifetime s) + (if h then 1 else 0)"
    "probes_fail (lifetime s') = probes_fail (lifetime s) + (if h then 0 else 1)"
    "d' = d \<or> (\<exists>r. d' = append_outage kn r d \<and> h \<and> current_outage s \<noteq> None)"
  using assms by (auto simp: record_defs account_lifetime split: if_splits option.splits)

lemma record_probe_rows:
  assumes "record_probe kn ts h det lat (s, d) = (ev, s', d')" "rows_ok kn (daily s)"
  shows "rows_ok kn (daily s')"
  using assms account_rows [OF assms(2), of ts]
  by (auto simp: record_defs row_ok_def split: if_splits option.splits intro!: rows_ok_on_day rows_ok_day)

lemma outage_ok_failing: "(case current_outage s of None \<Rightarrow> True | Some oc \<Rightarrow> outage_ok kn oc) \<Longrightarrow> outage_ok kn (failing kn ts det lat s)"
  by (auto simp: failing_def outage_ok_def add_failure_def open_outage_def split: option.splits)

lemma open_alerts_failing: "current_outage s' = Some (failing kn ts det lat s) \<Longrightarrow> open_alerts s' = open_alerts s"
  by (simp add: open_alerts_def failing_def add_failure_def open_outage_def split: option.split)

lemma stats_ok_record:
  assumes "stats_ok kn (s, d)" "record_probe kn ts h det lat (s, d) = (ev, s', d')"
  shows "stats_ok kn (s', d')"
proof -
  note e = record_probe_effect [OF assms(2)]
  from assms(1) have ok: "life_ok (lifetime s)" "rows_ok kn (daily s)" "case current_outage s of None \<Rightarrow> True | Some oc \<Rightarrow> outage_ok kn oc"
      "alerted_outages (lifetime s) \<le> outages (lifetime s) + open_alerts s"
      "0 < MAX_OUTAGES kn \<Longrightarrow> length (d_outages d) \<le> nat (MAX_OUTAGES kn)"
    by (simp_all add: stats_ok_def)
  have "life_ok (lifetime s')" using life_ok_account [OF ok(1), of kn ts] e(6-8) by (simp add: life_ok_def)
  moreover have "alerted_outages (lifetime s') \<le> outages (lifetime s') + open_alerts s'"
  proof (cases h)
    case True
    then show ?thesis using ok(4) e(1,2,9,10) by (auto simp: open_alerts_def split: option.splits if_splits)
  next
    case False
    then show ?thesis using ok(4) e(1,2,9,10) open_alerts_failing [of s' kn ts det lat s] by simp
  qed
  moreover have "0 < MAX_OUTAGES kn \<Longrightarrow> length (d_outages d') \<le> nat (MAX_OUTAGES kn)"
    using e(13) ok(5) append_outage_bound by blast
  ultimately show ?thesis
    using record_probe_rows [OF assms(2) ok(2)] e(2,4) outage_ok_failing [OF ok(3), of ts det lat]
    by (auto simp: stats_ok_def)
qed

lemma stats_ok_mark: "stats_ok kn (s, d) \<Longrightarrow> stats_ok kn (mark_alerted s, d)"
  by (auto simp: stats_ok_def mark_alerted_def life_ok_def open_alerts_def outage_ok_def split: option.splits)

lemma stats_ok_save: "stats_ok kn (s, d) \<Longrightarrow> stats_ok kn (s, save h s d)"
  by (simp add: stats_ok_def save_def)

text \<open>A watchdog that starts with an empty directory.\<close>

definition no_disk :: disk where
  "no_disk = \<lparr>d_state = None, d_daily = None, d_outages = [], d_broken = False\<rparr>"

lemma stats_ok_fresh: "stats_ok kn (load no_disk, no_disk)"
  by (simp add: stats_ok_def load_def no_disk_def life_ok_def new_life_def rows_ok_def open_alerts_def)

subsection \<open>A sequence of probes\<close>

text \<open>A probe: when it ran, whether it was healthy, its detail and its latency.\<close>

type_synonym sample = "rat \<times> bool \<times> string \<times> rat"

fun record_all :: "knobs \<Rightarrow> sample list \<Rightarrow> stats \<times> disk \<Rightarrow> stats \<times> disk" where
  "record_all kn [] sd = sd"
| "record_all kn ((ts, h, det, lat) # ps) sd = record_all kn ps (snd (record_probe kn ts h det lat sd))"

lemma record_all_append: "record_all kn (ps @ qs) sd = record_all kn qs (record_all kn ps sd)"
  by (induction kn ps sd rule: record_all.induct) simp_all

lemma stats_ok_record_all: "stats_ok kn sd \<Longrightarrow> stats_ok kn (record_all kn ps sd)"
proof (induction kn ps sd rule: record_all.induct)
  case (2 kn ts h det lat ps sd)
  obtain s d where sd: "sd = (s, d)" by (cases sd)
  obtain ev s' d' where r: "record_probe kn ts h det lat (s, d) = (ev, s', d')"
    by (cases "record_probe kn ts h det lat (s, d)")
  from stats_ok_record [OF _ r] 2 show ?case by (simp add: sd r)
qed simp

text \<open>
  C27.  The statistics stay consistent and bounded whatever the probes are, when they start with an
  empty directory: up and down time add up to the monitored time, in total and in every row;
  there are at most \<open>MAX_DAYS\<close> rows and \<open>MAX_OUTAGES\<close> logged outages when these are positive;
  the record of an outage holds at most ten distinct errors and \<open>MAX_SAMPLES\<close> samples; an
  outage is open exactly while the last probe failed.
\<close>

theorem statistics_bounded:
  "case record_all kn ps (load no_disk, no_disk) of (s, d) \<Rightarrow>
     up_s (lifetime s) + down_s (lifetime s) = monitored_s (lifetime s) \<and>
     distinct (map fst (daily s)) \<and> (\<forall>e\<in>set (daily s). r_up (snd e) + r_down (snd e) = r_monitored (snd e)) \<and>
     (0 < MAX_DAYS kn \<longrightarrow> int (length (daily s)) \<le> MAX_DAYS kn) \<and>
     (0 < MAX_OUTAGES kn \<longrightarrow> int (length (d_outages d)) \<le> MAX_OUTAGES kn) \<and>
     (\<forall>oc. current_outage s = Some oc \<longrightarrow> length (o_errors oc) \<le> 10 \<and> distinct (o_errors oc)
        \<and> int (length (o_samples oc)) \<le> max 0 (MAX_SAMPLES kn)) \<and>
     (current_outage s \<noteq> None \<longleftrightarrow> last_healthy s = Some False)"
proof -
  obtain s d where sd: "record_all kn ps (load no_disk, no_disk) = (s, d)" by fastforce
  have "stats_ok kn (s, d)" using stats_ok_record_all [OF stats_ok_fresh, of kn ps] by (simp add: sd)
  then show ?thesis
    by (auto simp: sd stats_ok_def life_ok_def rows_ok_def row_ok_def outage_ok_def split: option.splits)
qed

text \<open>The time that passes after healthy probes.\<close>

fun healthy_time :: "(rat \<times> bool) list \<Rightarrow> rat" where
  "healthy_time ((t, h) # (t', h') # ps) = (if h then t' - t else 0) + healthy_time ((t', h') # ps)"
| "healthy_time _ = 0"

fun steady :: "rat \<Rightarrow> rat list \<Rightarrow> bool" where
  "steady c (t # t' # ts) \<longleftrightarrow> t \<le> t' \<and> t' - t \<le> c \<and> steady c (t' # ts)"
| "steady c _ \<longleftrightarrow> True"

abbreviation marks :: "sample list \<Rightarrow> (rat \<times> bool) list" where
  "marks ps \<equiv> map (\<lambda>(t, h, _). (t, h)) ps"

lemma record_all_time:
  assumes "last_probe_at s = Some t" "last_healthy s = Some h" "steady (attribute_cap kn) (t # map fst ps)"
  shows "monitored_s (lifetime (fst (record_all kn ps (s, d)))) = monitored_s (lifetime s) + (last (t # map fst ps) - t)
    \<and> up_s (lifetime (fst (record_all kn ps (s, d)))) = up_s (lifetime s) + healthy_time ((t, h) # marks ps)"
  using assms
proof (induction ps arbitrary: s d t h)
  case (Cons p ps)
  obtain t' h' det lat where p: "p = (t', h', det, lat)" by (cases p) auto
  obtain ev s' d' where r: "record_probe kn t' h' det lat (s, d) = (ev, s', d')"
    by (cases "record_probe kn t' h' det lat (s, d)")
  note e = record_probe_effect [OF r]
  from Cons.IH [of s' t' h' d'] Cons.prems e(3-8) p show ?case
    by (simp add: r account_lifetime credit_def)
qed simp

text \<open>
  C28.  Uptime is accumulated without loss: when the probes come in order and no gap is longer than
  the cap, the monitored time is exactly the time from the first to the last probe, and the up
  time exactly the time between a healthy probe and the next one.
\<close>

theorem uptime_is_lossless:
  assumes "ps \<noteq> []" "steady (attribute_cap kn) (map fst ps)"
  shows "monitored_s (lifetime (fst (record_all kn ps (load no_disk, no_disk)))) = fst (last ps) - fst (hd ps) \<and>
    up_s (lifetime (fst (record_all kn ps (load no_disk, no_disk)))) = healthy_time (marks ps)"
proof -
  obtain t h det lat qs where ps: "ps = (t, h, det, lat) # qs" using assms(1) by (cases ps) auto
  obtain ev s' d' where r: "record_probe kn t h det lat (load no_disk, no_disk) = (ev, s', d')"
    by (cases "record_probe kn t h det lat (load no_disk, no_disk)")
  note e = record_probe_effect [OF r]
  have z: "monitored_s (lifetime s') = 0" "up_s (lifetime s') = 0"
    using e(6,7) by (simp_all add: account_lifetime credit_def load_def no_disk_def new_life_def)
  have "last (t # map fst qs) = fst (last ps)" by (simp add: ps last_map)
  with record_all_time [OF e(3,4), of kn qs d'] assms(2) z show ?thesis by (simp add: ps r)
qed


definition sample_knobs :: knobs where
  "sample_knobs = \<lparr>INTERVAL = 60, FAIL_INTERVAL = 5, FAIL_THRESHOLD = 3, START_GRACE = 300, MAX_DAYS = 400,
     MAX_OUTAGES = 2000, MAX_SAMPLES = 600, LOG_SUMMARY_EVERY = 0, DAILY_SUMMARY = False, UPSTREAM = True\<rparr>"

theorem uptime_is_lossless_witness:
  "up_s (lifetime (fst (record_all sample_knobs
      [(0, True, [], 1), (60, False, ''timeout'', 1), (65, True, [], 1)] (load no_disk, no_disk)))) = 60"
  using uptime_is_lossless [of "[(0, True, [], 1), (60, False, ''timeout'', 1), (65, True, [], 1)]" sample_knobs]
  by (simp add: attribute_cap_def sample_knobs_def)

theorem statistics_bounded_witness:
  "length (o_errors (failing sample_knobs 60 ''timeout'' 1 (load no_disk))) \<le> 10"
proof -
  have "current_outage (fst (record_all sample_knobs [(60, False, ''timeout'', 1)] (load no_disk, no_disk)))
      = Some (failing sample_knobs 60 ''timeout'' 1 (load no_disk))"
    using record_probe_effect(2) [of sample_knobs 60 False "''timeout''" 1 "load no_disk" no_disk]
    by (cases "record_probe sample_knobs 60 False ''timeout'' 1 (load no_disk, no_disk)") simp
  with statistics_bounded [of sample_knobs "[(60, False, ''timeout'', 1)]"] show ?thesis
    by (auto split: prod.splits)
qed

subsection \<open>Rows and totals\<close>

definition total :: "(row \<Rightarrow> rat) \<Rightarrow> rows \<Rightarrow> rat" where
  "total f d = sum_list (map (\<lambda>e. f (snd e)) d)"

lemma on_day_simps [simp]:
  "on_day ts f [] = []"
  "on_day ts f (e # d) = (if fst e = day_key ts then (fst e, f (snd e)) else e) # on_day ts f d"
  by (auto simp: on_day_def split: prod.split)

lemma total_simps [simp]: "total f [] = 0" "total f (e # d) = f (snd e) + total f d" "total f (d @ d') = total f d + total f d'"
  by (simp_all add: total_def)

lemma on_day_absent: "day_key ts \<notin> fst ` set d \<Longrightarrow> on_day ts g d = d"
  by (induction d) auto

lemma total_on_day:
  assumes "distinct (map fst d)" "day_key ts \<in> fst ` set d" "\<And>b. f (g b) = f b + x"
  shows "total f (on_day ts g d) = total f d + x"
  using assms by (induction d) (auto simp: on_day_absent)

lemma total_on_day_same: "(\<And>b. f (g b) = f b) \<Longrightarrow> total f (on_day ts g d) = total f d"
  by (induction d) auto

text \<open>While all days fit, no row is ever pruned, and today's row is there.\<close>

lemma day_fits:
  assumes "distinct (map fst d)" "fst ` set d \<subseteq> K" "day_key ts \<in> K" "finite K" "int (card K) \<le> MAX_DAYS kn"
  shows "fst ` set (day kn ts d) = insert (day_key ts) (fst ` set d) \<and> total r_up (day kn ts d) = total r_up d
    \<and> total r_monitored (day kn ts d) = total r_monitored d"
proof (cases rule: day_cases [of kn ts d])
  case pruned
  have "length d = card (fst ` set d)" using distinct_card [OF assms(1)] by simp
  also have "\<dots> < card K" using assms(2-4) pruned(2) by (intro psubset_card_mono) auto
  finally show ?thesis using pruned(3) assms(5) by simp
qed (auto simp: new_row_def)

definition rows_match :: "int set \<Rightarrow> stats \<Rightarrow> bool" where
  "rows_match K s \<longleftrightarrow> distinct (map fst (daily s)) \<and> fst ` set (daily s) \<subseteq> K
     \<and> total r_up (daily s) = up_s (lifetime s) \<and> total r_monitored (daily s) = monitored_s (lifetime s)"

lemma on_day_fst [simp]: "fst ` set (on_day ts f d) = fst ` set d"
  unfolding set_map [symmetric] by simp

lemma rows_match_day:
  assumes "rows_match K s" "day_key ts \<in> K" "finite K" "int (card K) \<le> MAX_DAYS kn"
  shows "rows_match K (s\<lparr>daily := day kn ts (daily s)\<rparr>)"
  using assms day_fits [of "daily s" K ts kn] by (auto simp: rows_match_def day_distinct)

lemma rows_match_keep:
  assumes "rows_match K s" "\<And>b. r_up (f b) = r_up b" "\<And>b. r_monitored (f b) = r_monitored b"
  shows "rows_match K (s\<lparr>daily := on_day ts f (daily s)\<rparr>)"
  using assms by (simp add: rows_match_def total_on_day_same)

lemma rows_match_cong:
  "rows_match K s \<Longrightarrow> daily s' = daily s \<Longrightarrow> up_s (lifetime s') = up_s (lifetime s) \<Longrightarrow>
   monitored_s (lifetime s') = monitored_s (lifetime s) \<Longrightarrow> rows_match K s'"
  by (simp add: rows_match_def)

lemma rows_match_add:
  assumes "rows_match K s" "day_key ts \<in> fst ` set (daily s)" "\<And>b. r_up (f b) = r_up b + u" "\<And>b. r_monitored (f b) = r_monitored b + m"
    and "up_s l = up_s (lifetime s) + u" "monitored_s l = monitored_s (lifetime s) + m"
  shows "rows_match K (s\<lparr>daily := on_day ts f (daily s), lifetime := l\<rparr>)"
  using assms by (simp add: rows_match_def total_on_day [where x = u] total_on_day [where x = m])

lemma rows_match_account:
  assumes "rows_match K s" "day_key ts \<in> K" "finite K" "int (card K) \<le> MAX_DAYS kn"
  shows "rows_match K (account kn ts s)"
proof (cases "last_probe_at s = None \<or> ts - the (last_probe_at s) \<le> 0")
  case True
  with assms(1) show ?thesis by (auto simp: account_def split: option.split)
next
  case False
  then obtain prev where prev: "last_probe_at s = Some prev" "\<not> ts - prev \<le> 0" by auto
  let ?s = "s\<lparr>daily := day kn ts (daily s)\<rparr>" and ?gap = "min (ts - prev) (attribute_cap kn)"
  let ?l = "lifetime s"
  have "distinct (map fst (daily s))" "fst ` set (daily s) \<subseteq> K" using assms(1) by (simp_all add: rows_match_def)
  from day_fits [OF this assms(2-4)] have "day_key ts \<in> fst ` set (daily ?s)" by simp
  note day = rows_match_day [OF assms] this
  show ?thesis
  proof (cases "last_healthy s = Some True")
    case True
    from rows_match_add [OF day, of "\<lambda>b. b\<lparr>r_monitored := r_monitored b + ?gap, r_up := r_up b + ?gap\<rparr>" ?gap ?gap
        "?l\<lparr>monitored_s := monitored_s ?l + ?gap, up_s := up_s ?l + ?gap\<rparr>"]
    show ?thesis using True by (simp only: account_def prev option.case Let_def if_False if_True simp_thms) simp
  next
    case h: False
    from rows_match_add [OF day, of "\<lambda>b. b\<lparr>r_monitored := r_monitored b + ?gap, r_down := r_down b + ?gap\<rparr>" 0 ?gap
        "?l\<lparr>monitored_s := monitored_s ?l + ?gap, down_s := down_s ?l + ?gap\<rparr>"]
    show ?thesis using h by (simp only: account_def prev option.case Let_def if_False if_True simp_thms) simp
  qed
qed

lemma rows_match_record:
  assumes "rows_match K s" "day_key ts \<in> K" "finite K" "int (card K) \<le> MAX_DAYS kn"
    and r: "record_probe kn ts h det lat (s, d) = (ev, s', d')"
  shows "rows_match K s'"
proof -
  note e = record_probe_effect [OF r]
  let ?a = "account kn ts s"
  let ?f = "\<lambda>b. if h then b\<lparr>r_ok := Suc (r_ok b)\<rparr> else b\<lparr>r_fail := Suc (r_fail b)\<rparr>"
  let ?b = "?a\<lparr>daily := day kn ts (daily ?a)\<rparr>"
  let ?c = "?b\<lparr>daily := on_day ts ?f (daily ?b)\<rparr>"
  let ?d = "?c\<lparr>daily := day kn ts (daily ?c)\<rparr>"
  have b: "rows_match K ?b" by (rule rows_match_day [OF rows_match_account [OF assms(1-4)] assms(2-4)])
  have c: "rows_match K ?c" by (rule rows_match_keep [OF b]) simp_all
  have d: "rows_match K ?d" by (rule rows_match_day [OF c assms(2-4)])
  have "daily s' = daily ?c \<or> (\<exists>g. daily s' = on_day ts g (daily ?d) \<and> (\<forall>b. r_up (g b) = r_up b \<and> r_monitored (g b) = r_monitored b))"
    using r by (auto simp: record_defs split: if_splits option.splits
        intro!: exI [of _ "\<lambda>b. b\<lparr>r_outages := Suc (r_outages b), r_longest := _ b\<rparr>"])
  then show ?thesis
  proof
    assume "daily s' = daily ?c"
    from rows_match_cong [OF c this] e(6,7) show ?thesis by simp
  next
    assume "\<exists>g. daily s' = on_day ts g (daily ?d) \<and> (\<forall>b. r_up (g b) = r_up b \<and> r_monitored (g b) = r_monitored b)"
    then obtain g where g: "daily s' = on_day ts g (daily ?d)" "\<And>b. r_up (g b) = r_up b" "\<And>b. r_monitored (g b) = r_monitored b"
      by blast
    from rows_match_cong [OF rows_match_keep [OF d g(2,3)], of s'] g(1) e(6,7) show ?thesis by simp
  qed
qed


definition lookup_sum :: "(row \<Rightarrow> rat) \<Rightarrow> int list \<Rightarrow> rows \<Rightarrow> rat" where
  "lookup_sum f ks d = sum_list (map (\<lambda>k. case map_of d k of None \<Rightarrow> 0 | Some b \<Rightarrow> f b) ks)"

lemma sum_list_single: "distinct ks \<Longrightarrow> k0 \<in> set ks \<Longrightarrow> g k0 = 0 \<Longrightarrow>
   sum_list (map (\<lambda>k. if k = k0 then x else g k) ks) = x + sum_list (map g ks)" for x :: rat
  by (induction ks) (auto simp: algebra_simps cong: map_cong intro!: arg_cong [where f = sum_list])

lemma lookup_sum_total:
  assumes "distinct (map fst d)" "fst ` set d \<subseteq> set ks" "distinct ks"
  shows "lookup_sum f ks d = total f d"
  using assms(1,2)
proof (induction d)
  case (Cons e d)
  have "lookup_sum f ks (e # d) = sum_list (map (\<lambda>k. if k = fst e then f (snd e) else case map_of d k of None \<Rightarrow> 0 | Some b \<Rightarrow> f b) ks)"
    unfolding lookup_sum_def by (cases e) (auto intro!: arg_cong [where f = sum_list])
  also have "\<dots> = f (snd e) + lookup_sum f ks d"
    unfolding lookup_sum_def using Cons.prems assms(3)
    by (intro sum_list_single) (auto simp: map_of_eq_None_iff [THEN iffD2] split: option.split dest: map_of_SomeD)
  finally show ?case using Cons by simp
qed (simp add: lookup_sum_def)

lemma window_total:
  assumes "distinct (map fst d)" "fst ` set d \<subseteq> {today - int n<..today}"
  shows "window today n d = (total r_up d, total r_down d)"
proof -
  let ?ks = "map (\<lambda>i. today - int i) [0..<n]"
  have "distinct ?ks" by (simp add: distinct_map inj_on_def)
  moreover have "fst ` set d \<subseteq> set ?ks"
  proof
    fix k assume "k \<in> fst ` set d"
    with assms(2) have "today - int n < k" "k \<le> today" by auto
    then have "k = today - int (nat (today - k))" "nat (today - k) \<in> {0..<n}" by auto
    then show "k \<in> set ?ks" by (metis atLeastLessThan_upt image_eqI set_map)
  qed
  moreover have "window today n d = (lookup_sum r_up ?ks d, lookup_sum r_down ?ks d)"
    by (simp add: window_def lookup_sum_def Let_def comp_def)
  ultimately show ?thesis using lookup_sum_total [OF assms(1)] by simp
qed

lemma total_split: "\<forall>e\<in>set d. row_ok (snd e) \<Longrightarrow> total r_up d + total r_down d = total r_monitored d"
  by (induction d) (auto simp: row_ok_def)

lemma rows_match_record_all:
  "rows_match K (fst sd) \<Longrightarrow> day_key ` fst ` set ps \<subseteq> K \<Longrightarrow> finite K \<Longrightarrow> int (card K) \<le> MAX_DAYS kn \<Longrightarrow>
   rows_match K (fst (record_all kn ps sd))"
proof (induction kn ps sd rule: record_all.induct)
  case (2 kn ts h det lat ps sd)
  obtain s d where sd: "sd = (s, d)" by (cases sd)
  obtain ev s' d' where r: "record_probe kn ts h det lat (s, d) = (ev, s', d')"
    by (cases "record_probe kn ts h det lat (s, d)")
  have "rows_match K s'" by (rule rows_match_record [OF _ _ _ _ r]) (use 2 sd in auto)
  with 2 show ?case by (simp add: sd r)
qed simp

text \<open>
  C33.  The windows are exact: when the days of all probes fit into the rows that are kept, the up and
  down times of the rows sum to the lifetime totals, so a window that reaches back to the first
  probe reports exactly the lifetime up and down time.
\<close>

theorem windows_are_exact:
  assumes "int (card (day_key ` fst ` set ps)) \<le> MAX_DAYS kn"
    and "day_key ` fst ` set ps \<subseteq> {today - int n<..today}"
    and "s = fst (record_all kn ps (load no_disk, no_disk))"
  shows "window today n (daily s) = (up_s (lifetime s), down_s (lifetime s))"
proof -
  have "rows_match (day_key ` fst ` set ps) (load no_disk)"
    by (simp add: rows_match_def load_def no_disk_def new_life_def)
  then have m: "rows_match (day_key ` fst ` set ps) s"
    unfolding assms(3) using rows_match_record_all [of _ "(load no_disk, no_disk)" ps kn] assms(1) by simp
  have "stats_ok kn (record_all kn ps (load no_disk, no_disk))" by (rule stats_ok_record_all [OF stats_ok_fresh])
  then have ok: "rows_ok kn (daily s)" "life_ok (lifetime s)"
    unfolding assms(3) by (auto simp: stats_ok_def split: prod.splits)
  have "total r_up (daily s) + total r_down (daily s) = total r_monitored (daily s)"
    using ok(1) total_split by (simp add: rows_ok_def)
  then have "total r_down (daily s) = down_s (lifetime s)" "total r_up (daily s) = up_s (lifetime s)"
    using m ok(2) by (auto simp: rows_match_def life_ok_def)
  moreover have sub: "fst ` set (daily s) \<subseteq> day_key ` fst ` set ps" and dist: "distinct (map fst (daily s))"
    using m by (simp_all add: rows_match_def)
  note window_total [OF dist subset_trans [OF sub assms(2)]]
  ultimately show ?thesis by simp
qed


lemma day_key_whole: "day_key (of_int n) = n div 86400"
proof -
  have "round_even (of_int n * 1000000) = n * 1000000"
  proof -
    have "(of_int n * 1000000 :: rat) = of_int (n * 1000000)" by simp
    then show ?thesis unfolding round_even_def Let_def by (simp only: floor_of_int) simp
  qed
  then show ?thesis by (simp add: day_key_def)
qed

theorem windows_are_exact_witness:
  "window 0 1 (daily (fst (record_all sample_knobs [(0, True, [], 1), (60, True, [], 1)] (load no_disk, no_disk)))) = (60, 0)"
proof -
  let ?ps = "[(0, True, [], 1), (60, True, [], 1)] :: sample list"
  have "day_key ` fst ` set ?ps = {0}" using day_key_whole [of 0] day_key_whole [of 60] by simp
  from windows_are_exact [of ?ps sample_knobs 0 1, OF _ _ refl] this
  have "window 0 1 (daily (fst (record_all sample_knobs ?ps (load no_disk, no_disk))))
      = (up_s (lifetime (fst (record_all sample_knobs ?ps (load no_disk, no_disk)))),
         down_s (lifetime (fst (record_all sample_knobs ?ps (load no_disk, no_disk)))))"
    by (simp add: sample_knobs_def del: record_all.simps)
  moreover have "up_s (lifetime (fst (record_all sample_knobs ?ps (load no_disk, no_disk)))) = 60"
    "down_s (lifetime (fst (record_all sample_knobs ?ps (load no_disk, no_disk)))) = 0"
    by (simp_all add: record_defs account_def attribute_cap_def sample_knobs_def load_def no_disk_def new_life_def)
  ultimately show ?thesis by simp
qed

subsection \<open>Retention and restarts\<close>

text \<open>
  C34.  Retention keeps the newest days: after the row of a probe's day is made, at most \<open>MAX_DAYS\<close> rows
  are left, the rows kept are unchanged, and every row that is gone is older than all that stay.
\<close>

theorem retention_keeps_newest_days:
  assumes "distinct (map fst d)" "0 < MAX_DAYS kn" "int (length d) \<le> MAX_DAYS kn"
  shows "int (length (day kn ts d)) \<le> MAX_DAYS kn \<and>
    set (day kn ts d) \<subseteq> insert (day_key ts, new_row) (set d) \<and>
    (\<forall>e\<in>set d. \<forall>e'\<in>set (day kn ts d). e \<notin> set (day kn ts d) \<longrightarrow> fst e < fst e')"
proof (intro conjI ballI impI)
  show "int (length (day kn ts d)) \<le> MAX_DAYS kn" by (rule day_length [OF assms])
  show "set (day kn ts d) \<subseteq> insert (day_key ts, new_row) (set d)" using day_set by blast
  fix e e' assume e: "e \<in> set d" "e' \<in> set (day kn ts d)" "e \<notin> set (day kn ts d)"
  let ?d = "d @ [(day_key ts, new_row)]"
  show "fst e < fst e'"
  proof (cases rule: day_cases [of kn ts d])
    case pruned
    have dist: "distinct (map fst ?d)" using assms(1) pruned(2) by auto
    have set: "set (day kn ts d) = {x \<in> set ?d. fst x \<notin> pruned_keys kn ?d}" unfolding pruned(1) by (rule set_filter)
    have "e \<in> set ?d" using e(1) by simp
    then have out: "fst e \<in> pruned_keys kn ?d" "fst e' \<in> fst ` set ?d" "fst e' \<notin> pruned_keys kn ?d"
      using e(2,3) unfolding set by blast+
    show ?thesis by (rule prune_removes_oldest [OF dist assms(2) out])
  qed (use e in auto)
qed

theorem retention_keeps_newest_days_witness:
  "int (length (day (sample_knobs\<lparr>MAX_DAYS := 1\<rparr>) 86400 [(0, new_row)])) \<le> 1"
  using retention_keeps_newest_days [of "[(0, new_row)]" "sample_knobs\<lparr>MAX_DAYS := 1\<rparr>" 86400] by simp

text \<open>
  With \<open>MAX_DAYS\<close> or \<open>MAX_OUTAGES\<close> set to 0 nothing is ever removed, since \<open>[:-0]\<close> is empty and
  \<open>[-0:]\<close> is everything: the limit is off instead of strict.
\<close>

lemma zero_limits_are_off:
  "MAX_DAYS kn = 0 \<Longrightarrow> set d \<subseteq> set (day kn ts d)"
  "MAX_OUTAGES kn = 0 \<Longrightarrow> \<not> d_broken dk \<Longrightarrow> d_outages (append_outage kn r dk) = d_outages dk @ [r]"
  by (auto simp: day_def append_outage_def Let_def split: option.split)

text \<open>
  A restart loses nothing: what \<open>Stats\<close> loads after a successful save is what was saved, the open
  outage included, with the boot count one up.
\<close>

theorem restart_resumes:
  assumes "\<not> d_broken d" "last_healthy s = Some h"
  shows "load (save h s d) = s\<lparr>boot_count := boot_count s + 1\<rparr> \<and> d_outages (save h s d) = d_outages d"
  using assms by (simp add: save_def load_def)

theorem restart_resumes_witness:
  "boot_count (load (save True ((load no_disk)\<lparr>last_healthy := Some True\<rparr>) no_disk)) = 2"
  using restart_resumes [of no_disk "(load no_disk)\<lparr>last_healthy := Some True\<rparr>" True]
  by (simp add: no_disk_def load_def)

end
