(* ===== verification/Calendar.thy ===== *)
theory Calendar
  imports Prelude "HOL-Library.List_Lexorder" "HOL-Library.Char_ord"
begin

text \<open>
  The calendar of Python's \<open>datetime\<close>, as far as \<open>watchdog/watchdog.py\<close> prints dates with it.

  \<open>ymd_of\<close> is the algorithm of \<open>datetime\<close> from a day's ordinal (1 is 1 January of the year 1)
  to year, month and day, \<open>ord_of\<close> the way back.  The lemmas give the round trip and that dates
  are ordered like their ordinals, in the calendar and as text \<open>YYYY-MM-DD\<close>.
\<close>

subsection \<open>Dates and ordinals\<close>

definition is_leap :: "int \<Rightarrow> bool" where
  "is_leap y \<longleftrightarrow> y mod 4 = 0 \<and> (y mod 100 \<noteq> 0 \<or> y mod 400 = 0)"

definition days_before_year :: "int \<Rightarrow> int" where
  "days_before_year y = (let z = y - 1 in z * 365 + z div 4 - z div 100 + z div 400)"

definition days_in_month :: "bool \<Rightarrow> nat \<Rightarrow> nat" where
  "days_in_month leap m = (if m = 2 \<and> leap then 29 else [0, 31, 28, 31, 30, 31, 30, 31, 31, 30, 31, 30, 31] ! m)"

definition days_before_month :: "bool \<Rightarrow> nat \<Rightarrow> nat" where
  "days_before_month leap m =
     [0, 0, 31, 59, 90, 120, 151, 181, 212, 243, 273, 304, 334] ! m + (if m > 2 \<and> leap then 1 else 0)"

type_synonym date = "int \<times> nat \<times> nat"

definition valid_date :: "date \<Rightarrow> bool" where
  "valid_date dt = (case dt of (y, m, d) \<Rightarrow> 1 \<le> y \<and> 1 \<le> m \<and> m \<le> 12 \<and> 1 \<le> d \<and> d \<le> days_in_month (is_leap y) m)"

definition ord_of :: "date \<Rightarrow> int" where
  "ord_of dt = (case dt of (y, m, d) \<Rightarrow> days_before_year y + int (days_before_month (is_leap y) m) + int d)"

text \<open>The month and the day of a day of the year, counted from 0.\<close>

definition month_day :: "bool \<Rightarrow> nat \<Rightarrow> nat \<times> nat" where
  "month_day leap n =
     (let m = (n + 50) div 32 in
      if days_before_month leap m > n then (m - 1, n - days_before_month leap (m - 1) + 1)
      else (m, n - days_before_month leap m + 1))"

definition ymd_of :: "int \<Rightarrow> date" where
  "ymd_of ordinal =
     (let n = ordinal - 1;
          n400 = n div 146097; n' = n mod 146097;
          n100 = n' div 36524; n'' = n' mod 36524;
          n4 = n'' div 1461; n3 = n'' mod 1461;
          n1 = n3 div 365; rest = n3 mod 365;
          year = n400 * 400 + 1 + n100 * 100 + n4 * 4 + n1
      in if n1 = 4 \<or> n100 = 4 then (year - 1, 12, 31)
         else (case month_day (n1 = 3 \<and> (n4 \<noteq> 24 \<or> n100 = 3)) (nat rest) of (m, d) \<Rightarrow> (year, m, d)))"

text \<open>Within a year: a table of 366 days.\<close>

definition month_day_ok :: "bool \<Rightarrow> nat \<Rightarrow> bool" where
  "month_day_ok leap n = (case month_day leap n of (m, d) \<Rightarrow>
     1 \<le> m \<and> m \<le> 12 \<and> 1 \<le> d \<and> d \<le> days_in_month leap m \<and> days_before_month leap m + d = n + 1)"

lemma month_day_ok:
  assumes "n < (if leap then 366 else 365)"
  shows "month_day_ok leap n"
proof -
  define m where "m = (n + 50) div 32"
  have n: "32 * m \<le> n + 50" "n + 50 < 32 * m + 32" unfolding m_def by (auto simp: less_eq_div_iff_mult_less_eq)
  with assms have "0 < m" "m < 13" by (auto split: if_splits)
  then have "m \<in> {1, 2, 3, 4, 5, 6, 7, 8, 9, 10, 11, 12}" unfolding insert_iff empty_iff by presburger
  then show ?thesis
    by (elim insertE emptyE; use n assms in \<open>auto simp: month_day_ok_def month_day_def m_def [symmetric] days_before_month_def days_in_month_def split: if_splits\<close>)
qed

lemma div_mod_parts:
  fixes x :: int
  assumes "0 \<le> r" "r < k" "x = k * q + r"
  shows "x div k = q" "x mod k = r"
  using assms by simp_all

lemma mod_zero_parts:
  fixes x :: int
  assumes "1 \<le> r" "r \<le> k" "x = k * q + r"
  shows "x mod k = 0 \<longleftrightarrow> r = k"
  using assms by (cases "r = k") simp_all

lemma ord_of_parts:
  assumes "0 \<le> c4" "c4 \<le> 24" "0 \<le> c1" "c1 \<le> 3" "0 \<le> c100" "c100 \<le> 3"
    and "y = 400 * c400 + 100 * c100 + 4 * c4 + c1 + 1"
  shows "days_before_year y = 146097 * c400 + 36524 * c100 + 1461 * c4 + 365 * c1"
    and "is_leap y \<longleftrightarrow> c1 = 3 \<and> (c4 \<noteq> 24 \<or> c100 = 3)"
proof -
  have "(y - 1) div 4 = 100 * c400 + 25 * c100 + c4"
    by (rule div_mod_parts(1) [of c1]) (use assms in auto)
  moreover have "(y - 1) div 100 = 4 * c400 + c100"
    by (rule div_mod_parts(1) [of "4 * c4 + c1"]) (use assms in auto)
  moreover have "(y - 1) div 400 = c400"
    by (rule div_mod_parts(1) [of "100 * c100 + 4 * c4 + c1"]) (use assms in auto)
  ultimately show "days_before_year y = 146097 * c400 + 36524 * c100 + 1461 * c4 + 365 * c1"
    using assms(7) by (simp add: days_before_year_def Let_def)
  have "y mod 4 = 0 \<longleftrightarrow> c1 + 1 = 4"
    by (rule mod_zero_parts [of _ _ _ "100 * c400 + 25 * c100 + c4"]) (use assms in auto)
  moreover have "y mod 100 = 0 \<longleftrightarrow> 4 * c4 + c1 + 1 = 100"
    by (rule mod_zero_parts [of _ _ _ "4 * c400 + c100"]) (use assms in auto)
  moreover have "y mod 400 = 0 \<longleftrightarrow> 100 * c100 + 4 * c4 + c1 + 1 = 400"
    by (rule mod_zero_parts [of _ _ _ c400]) (use assms in auto)
  ultimately show "is_leap y \<longleftrightarrow> c1 = 3 \<and> (c4 \<noteq> 24 \<or> c100 = 3)"
    using assms by (auto simp: is_leap_def)
qed

lemma ord_of_12_31: "ord_of (y, 12, 31) = days_before_year y + (if is_leap y then 366 else 365)"
  by (simp add: ord_of_def days_before_month_def)

text \<open>The way from an ordinal to a date and back.\<close>

lemma ymd_of_ordinal:
  assumes "1 \<le> n"
  shows "valid_date (ymd_of n) \<and> ord_of (ymd_of n) = n"
proof -
  define c400 where "c400 = (n - 1) div 146097"
  define r1 where "r1 = (n - 1) mod 146097"
  define c100 where "c100 = r1 div 36524"
  define r2 where "r2 = r1 mod 36524"
  define c4 where "c4 = r2 div 1461"
  define r3 where "r3 = r2 mod 1461"
  define c1 where "c1 = r3 div 365"
  define r4 where "r4 = r3 mod 365"
  have r: "n - 1 = 146097 * c400 + r1" "0 \<le> r1" "r1 < 146097" "r1 = 36524 * c100 + r2" "0 \<le> r2" "r2 < 36524"
    "r2 = 1461 * c4 + r3" "0 \<le> r3" "r3 < 1461" "r3 = 365 * c1 + r4" "0 \<le> r4" "r4 < 365"
    by (simp_all add: c400_def r1_def c100_def r2_def c4_def r3_def c1_def r4_def)
  have c: "0 \<le> c400" "0 \<le> c100" "c100 \<le> 4" "0 \<le> c4" "c4 \<le> 24" "0 \<le> c1" "c1 \<le> 4"
    unfolding c400_def c100_def c4_def c1_def
    using assms zdiv_mono1 [of r1 146096 36524] zdiv_mono1 [of r2 36523 1461] zdiv_mono1 [of r3 1460 365] r(2,3,5,6,8,9)
    by (simp_all add: pos_imp_zdiv_nonneg_iff)
  have ymd: "ymd_of n = (if c1 = 4 \<or> c100 = 4 then (400 * c400 + 100 * c100 + 4 * c4 + c1, 12, 31)
      else (case month_day (c1 = 3 \<and> (c4 \<noteq> 24 \<or> c100 = 3)) (nat r4) of (m, d) \<Rightarrow> (400 * c400 + 100 * c100 + 4 * c4 + c1 + 1, m, d)))"
    by (simp add: ymd_of_def Let_def c400_def r1_def c100_def r2_def c4_def r3_def c1_def r4_def algebra_simps)
  consider (century) "c100 = 4" | (leap) "c100 \<noteq> 4" "c1 = 4" | (plain) "c100 \<noteq> 4" "c1 \<noteq> 4" by blast
  then show ?thesis
  proof cases
    case century
    then have z: "c4 = 0" "c1 = 0" "r4 = 0" using r c by linarith+
    note p = ord_of_parts [of 24 3 3 "400 * c400 + 400" c400]
    have "is_leap (400 * c400 + 400)" "days_before_year (400 * c400 + 400) = 146097 * c400 + 145731" using p by simp_all
    moreover have "ymd_of n = (400 * c400 + 400, 12, 31)" using ymd century z by simp
    moreover have "n = 146097 * c400 + 146097" using r century z by linarith
    ultimately show ?thesis using c(1) by (simp add: ord_of_12_31 valid_date_def days_in_month_def)
  next
    case leap
    then have z: "r4 = 0" "c4 \<le> 23" "c100 \<le> 3" using r c by linarith+
    note p = ord_of_parts [of c4 3 c100 "400 * c400 + 100 * c100 + 4 * c4 + 4" c400]
    have "is_leap (400 * c400 + 100 * c100 + 4 * c4 + 4)"
      "days_before_year (400 * c400 + 100 * c100 + 4 * c4 + 4) = 146097 * c400 + 36524 * c100 + 1461 * c4 + 1095" using p z c by simp_all
    moreover have "ymd_of n = (400 * c400 + 100 * c100 + 4 * c4 + 4, 12, 31)" using ymd leap by simp
    moreover have "n = 146097 * c400 + 36524 * c100 + 1461 * c4 + 1461" using r leap z by linarith
    ultimately show ?thesis using c by (simp add: ord_of_12_31 valid_date_def days_in_month_def)
  next
    case plain
    let ?y = "400 * c400 + 100 * c100 + 4 * c4 + c1 + 1"
    have b: "c1 \<le> 3" "c100 \<le> 3" using plain c by linarith+
    note p = ord_of_parts [OF c(4,5,6) b(1) c(2) b(2) refl, of c400]
    obtain m d where md: "month_day (is_leap ?y) (nat r4) = (m, d)" by fastforce
    have "month_day_ok (is_leap ?y) (nat r4)" by (rule month_day_ok) (use r(11,12) in auto)
    then have "1 \<le> m" "m \<le> 12" "1 \<le> d" "d \<le> days_in_month (is_leap ?y) m" "days_before_month (is_leap ?y) m + d = nat r4 + 1"
      unfolding month_day_ok_def md by simp_all
    moreover from this(5) r(11) have "int (days_before_month (is_leap ?y) m) + int d = r4 + 1" by linarith
    moreover have "ymd_of n = (?y, m, d)" using ymd plain md unfolding p(2) by simp
    ultimately show ?thesis using r c p(1) by (simp add: valid_date_def ord_of_def)
  qed
qed


subsection \<open>The order of dates\<close>

lemma div_step:
  fixes x :: int
  assumes "0 < k"
  shows "(x + 1) div k = x div k + (if (x + 1) mod k = 0 then 1 else 0)"
proof (cases "(x + 1) mod k = 0")
  case True
  then obtain q where "x + 1 = k * q" by (auto simp: mod_eq_0_iff_dvd elim: dvdE)
  moreover have "(k * q - 1) div k = q - 1"
    using div_mod_parts(1) [of "k - 1" k "k * q - 1" "q - 1"] assms by (simp add: algebra_simps)
  ultimately show ?thesis using assms by (simp add: eq_diff_eq [symmetric])
next
  case False
  let ?q = "(x + 1) div k" and ?r = "(x + 1) mod k"
  have "1 \<le> ?r" "?r < k" using False assms pos_mod_sign [of k "x + 1"] pos_mod_bound [of k "x + 1"] by linarith+
  moreover have "x = k * ?q + (?r - 1)" using mult_div_mod_eq [of k "x + 1"] by linarith
  ultimately have "x div k = ?q" using div_mod_parts(1) [of "?r - 1" k x ?q] by simp
  with False show ?thesis by simp
qed

lemma leap_rule:
  fixes y a b c a' b' c' :: int
  assumes "a' = a + (if P4 then 1 else 0)" "b' = b + (if P100 then 1 else 0)" "c' = c + (if P400 then 1 else 0)"
    and "P100 \<Longrightarrow> P4" "P400 \<Longrightarrow> P100"
  shows "y * 365 + a' - b' + c' = (y - 1) * 365 + a - b + c + (if P4 \<and> (\<not> P100 \<or> P400) then 366 else 365)"
  using assms by (auto split: if_splits)

lemma days_before_next_year: "days_before_year (y + 1) = days_before_year y + (if is_leap y then 366 else 365)"
proof -
  have "y mod 4 = 0" if "y mod 100 = 0" using that dvd_trans [of 4 100 y] by (simp add: mod_eq_0_iff_dvd)
  moreover have "y mod 100 = 0" if "y mod 400 = 0" using that dvd_trans [of 100 400 y] by (simp add: mod_eq_0_iff_dvd)
  moreover have "y div k = (y - 1) div k + (if y mod k = 0 then 1 else 0)" if "0 < k" for k
    using div_step [OF that, of "y - 1"] by simp
  ultimately show ?thesis
    unfolding days_before_year_def Let_def is_leap_def add_diff_cancel_right' by (intro leap_rule) simp_all
qed

lemma days_before_year_mono: "y \<le> z \<Longrightarrow> days_before_year y \<le> days_before_year z"
  by (induction z rule: int_ge_induct) (auto simp: days_before_next_year)

lemma days_before_next_month:
  assumes "1 \<le> m" "m < 12"
  shows "days_before_month leap (Suc m) = days_before_month leap m + days_in_month leap m"
proof -
  from assms have "m \<in> {1, 2, 3, 4, 5, 6, 7, 8, 9, 10, 11}" unfolding insert_iff empty_iff by presburger
  then show ?thesis by (elim insertE emptyE) (simp_all add: days_before_month_def days_in_month_def)
qed

lemma days_before_month_mono: "m \<le> n \<Longrightarrow> 1 \<le> m \<Longrightarrow> n \<le> 12 \<Longrightarrow> days_before_month leap m \<le> days_before_month leap n"
proof (induction n rule: dec_induct)
  case (step n)
  then show ?case using days_before_next_month [of n leap] by simp
qed simp

lemma ord_of_in_year:
  assumes "valid_date (y, m, d)"
  shows "days_before_year y < ord_of (y, m, d)" "ord_of (y, m, d) \<le> days_before_year (y + 1)"
proof -
  from assms have v: "1 \<le> m" "m \<le> 12" "1 \<le> d" "d \<le> days_in_month (is_leap y) m" by (auto simp: valid_date_def)
  then show "days_before_year y < ord_of (y, m, d)" by (simp add: ord_of_def)
  have "days_before_month (is_leap y) m + days_in_month (is_leap y) m \<le> (if is_leap y then 366 else 365)"
  proof (cases "m = 12")
    case False
    then have "days_before_month (is_leap y) (Suc m) = days_before_month (is_leap y) m + days_in_month (is_leap y) m"
      "days_before_month (is_leap y) (Suc m) \<le> days_before_month (is_leap y) 12"
      using days_before_next_month [of m] days_before_month_mono [of "Suc m" 12] v by auto
    moreover have "days_before_month (is_leap y) 12 \<le> 335" by (simp add: days_before_month_def)
    ultimately show ?thesis by (cases "is_leap y") auto
  qed (simp add: days_before_month_def days_in_month_def)
  then show "ord_of (y, m, d) \<le> days_before_year (y + 1)"
    unfolding days_before_next_year ord_of_def using v(4) by (auto split: if_splits)
qed

lemma ord_of_in_month:
  assumes "valid_date (y, m, d)" "valid_date (y, m', d')" "m < m'"
  shows "ord_of (y, m, d) < ord_of (y, m', d')"
proof -
  have "days_before_month (is_leap y) (Suc m) = days_before_month (is_leap y) m + days_in_month (is_leap y) m"
    "days_before_month (is_leap y) (Suc m) \<le> days_before_month (is_leap y) m'"
    using assms days_before_next_month [of m] days_before_month_mono [of "Suc m" m'] by (auto simp: valid_date_def)
  with assms show ?thesis by (auto simp: ord_of_def valid_date_def)
qed

definition date_less :: "date \<Rightarrow> date \<Rightarrow> bool" where
  "date_less a b = (case (a, b) of ((y, m, d), (y', m', d')) \<Rightarrow> y < y' \<or> y = y' \<and> (m < m' \<or> m = m' \<and> d < d'))"

lemma date_less_ord:
  assumes "valid_date a" "valid_date b" "date_less a b"
  shows "ord_of a < ord_of b"
proof -
  obtain y m d y' m' d' where ab: "a = (y, m, d)" "b = (y', m', d')" by (cases a, cases b) auto
  consider "y < y'" | "y = y'" "m < m'" | "y = y'" "m = m'" "d < d'" using assms(3) by (auto simp: date_less_def ab)
  then show ?thesis
  proof cases
    case 1
    then have "days_before_year (y + 1) \<le> days_before_year y'" by (intro days_before_year_mono) simp
    with ord_of_in_year [of y m d] ord_of_in_year [of y' m' d'] assms(1,2) show ?thesis by (simp add: ab)
  qed (use assms ord_of_in_month in \<open>auto simp: ab ord_of_def\<close>)
qed

lemma date_less_linear: "date_less a b \<or> a = b \<or> date_less b a"
  by (cases a; cases b) (auto simp: date_less_def)

lemma date_less_iff_ord: "valid_date a \<Longrightarrow> valid_date b \<Longrightarrow> date_less a b \<longleftrightarrow> ord_of a < ord_of b"
  using date_less_ord date_less_linear less_asym less_irrefl by metis


subsection \<open>Dates as text\<close>

text \<open>A number below \<open>10 ^ w\<close> with \<open>w\<close> digits (\<open>%04d\<close>, \<open>%02d\<close>).\<close>

fun pad :: "nat \<Rightarrow> nat \<Rightarrow> string" where
  "pad 0 n = []"
| "pad (Suc w) n = pad w (n div 10) @ [char_of (48 + n mod 10)]"

lemma length_pad [simp]: "length (pad w n) = w"
  by (induction w arbitrary: n) simp_all

lemma append_less:
  fixes xs ys us vs :: "'a::linorder list"
  shows "length xs = length ys \<Longrightarrow> xs @ us < ys @ vs \<longleftrightarrow> xs < ys \<or> xs = ys \<and> us < vs"
  by (induction xs ys rule: list_induct2) auto

lemma digit_less: "i < 10 \<Longrightarrow> j < 10 \<Longrightarrow> (char_of (48 + i) :: char) < char_of (48 + j) \<longleftrightarrow> (i::nat) < j"
  by (simp add: less_char_def of_char_of)

lemma digit_eq: "i < 10 \<Longrightarrow> j < 10 \<Longrightarrow> (char_of (48 + i) :: char) = char_of (48 + j) \<longleftrightarrow> (i::nat) = j"
  using digit_less [of i j] digit_less [of j i] by (metis less_irrefl linorder_neqE)

lemma less_by_digits:
  fixes q q' r r' :: nat
  shows "r < 10 \<Longrightarrow> r' < 10 \<Longrightarrow> 10 * q + r < 10 * q' + r' \<longleftrightarrow> q < q' \<or> q = q' \<and> r < r'"
  by linarith

lemma less_div_mod: "(n::nat) < m \<longleftrightarrow> n div 10 < m div 10 \<or> n div 10 = m div 10 \<and> n mod 10 < m mod 10"
  using less_by_digits [of "n mod 10" "m mod 10" "n div 10" "m div 10"] by (simp only: mult_div_mod_eq mod_less_divisor)

lemma pad_inject: "n < 10 ^ w \<Longrightarrow> m < 10 ^ w \<Longrightarrow> pad w n = pad w m \<longleftrightarrow> n = m"
proof (induction w arbitrary: n m)
  case (Suc w)
  then have "pad w (n div 10) = pad w (m div 10) \<longleftrightarrow> n div 10 = m div 10"
    by (intro Suc.IH) (simp_all add: div_less_iff_less_mult mult.commute)
  then have "pad (Suc w) n = pad (Suc w) m \<longleftrightarrow> n div 10 = m div 10 \<and> n mod 10 = m mod 10"
    using digit_eq [of "n mod 10" "m mod 10"] by simp
  also have "\<dots> \<longleftrightarrow> n = m" by (metis mult_div_mod_eq)
  finally show ?case .
qed simp

lemma pad_less: "n < 10 ^ w \<Longrightarrow> m < 10 ^ w \<Longrightarrow> pad w n < pad w m \<longleftrightarrow> n < m"
proof (induction w arbitrary: n m)
  case (Suc w)
  have b: "n div 10 < 10 ^ w" "m div 10 < 10 ^ w" using Suc.prems by (simp_all add: div_less_iff_less_mult mult.commute)
  then show ?case
    using Suc.IH [OF b] pad_inject [OF b] digit_less [of "n mod 10" "m mod 10"] less_div_mod [of n m]
    by (simp add: append_less)
qed simp

definition date_text :: "date \<Rightarrow> string" where
  "date_text dt = (case dt of (y, m, d) \<Rightarrow> pad 4 (nat y) @ ''-'' @ pad 2 m @ ''-'' @ pad 2 d)"

lemma valid_date_small: "valid_date (y, m, d) \<Longrightarrow> 0 \<le> y \<and> m < 100 \<and> d < 100"
proof -
  assume v: "valid_date (y, m, d)"
  then have "m \<in> {1, 2, 3, 4, 5, 6, 7, 8, 9, 10, 11, 12}" unfolding insert_iff empty_iff valid_date_def prod.case by presburger
  then have "days_in_month (is_leap y) m \<le> 31" by (elim insertE emptyE) (simp_all add: days_in_month_def)
  with v show ?thesis by (auto simp: valid_date_def)
qed

lemma date_text_less:
  assumes "valid_date a" "valid_date b" "fst a \<le> 9999" "fst b \<le> 9999"
  shows "date_text a < date_text b \<longleftrightarrow> date_less a b"
proof -
  obtain y m d y' m' d' where ab: "a = (y, m, d)" "b = (y', m', d')" by (cases a, cases b) auto
  note s = valid_date_small [OF assms(1) [unfolded ab]] valid_date_small [OF assms(2) [unfolded ab]]
  from s assms(3,4) have "nat y < 10 ^ 4" "nat y' < 10 ^ 4" "m < 10 ^ 2" "m' < 10 ^ 2" "d < 10 ^ 2" "d' < 10 ^ 2" by (simp_all add: ab)
  then have "date_text a < date_text b \<longleftrightarrow> nat y < nat y' \<or> nat y = nat y' \<and> (m < m' \<or> m = m' \<and> d < d')"
    by (simp add: date_text_def ab append_less pad_less pad_inject)
  with s show ?thesis by (auto simp: date_less_def ab)
qed

end
