(* ===== verification/WatchReport.thy ===== *)
theory WatchReport
  imports WatchStats Calendar "HOL-Library.Multiset"
begin

text \<open>
  \<open>watchdog/watchdog.py\<close>: what the watchdog reads and writes as text.

  \<^item> \<open>day_text\<close> and \<open>iso_text\<close> print the day numbers and seconds of \<open>WatchStats\<close>; \<open>day_file\<close> and
    \<open>window_file\<close> are \<open>_day\<close> and \<open>_window\<close> on rows with the text keys of \<open>daily.json\<close>, which the
    numbered rows of \<open>WatchStats\<close> stand for.
  \<^item> \<open>uptime_line\<close> and \<open>report_block\<close> are the reports, \<open>notify\<close> is the request to ntfy, \<open>probe\<close> the
    check of one server.  The socket and the HTTP request are parameters.
\<close>

subsection \<open>Days and seconds as text\<close>

definition EPOCH :: int where
  "EPOCH = 719163"

definition day_text :: "int \<Rightarrow> string" where
  "day_text k = date_text (ymd_of (k + EPOCH))"

definition iso_text :: "int \<Rightarrow> string" where
  "iso_text s =
     (let t = nat (s mod 86400) in
      day_text (s div 86400) @ '' '' @ pad 2 (t div 3600) @ '':'' @ pad 2 (t mod 3600 div 60) @ '':'' @ pad 2 (t mod 60) @ ''Z'')"

text \<open>From 1970 to 9999, where a year has four digits.\<close>

definition in_calendar :: "int \<Rightarrow> bool" where
  "in_calendar k \<longleftrightarrow> 0 \<le> k \<and> k < 2932897"

lemma ymd_of_day:
  assumes "in_calendar k"
  shows "valid_date (ymd_of (k + EPOCH))" "ord_of (ymd_of (k + EPOCH)) = k + EPOCH" "fst (ymd_of (k + EPOCH)) \<le> 9999"
proof -
  obtain y m d where ymd: "ymd_of (k + EPOCH) = (y, m, d)" by (cases "ymd_of (k + EPOCH)") auto
  have k: "1 \<le> k + EPOCH" "k + EPOCH \<le> 3652059" using assms by (auto simp: in_calendar_def EPOCH_def)
  then show v: "valid_date (ymd_of (k + EPOCH))" "ord_of (ymd_of (k + EPOCH)) = k + EPOCH"
    using ymd_of_ordinal by auto
  have "days_before_year 10000 = 3652059" by (simp add: days_before_year_def)
  then have "\<not> 10000 \<le> y"
    using days_before_year_mono [of 10000 y] ord_of_in_year(1) [of y m d] v k(2) by (auto simp: ymd)
  then show "fst (ymd_of (k + EPOCH)) \<le> 9999" by (simp add: ymd)
qed

text \<open>The keys of \<open>daily.json\<close> are ordered, as text, like the days they stand for.\<close>

lemma day_text_less: "in_calendar j \<Longrightarrow> in_calendar k \<Longrightarrow> day_text j < day_text k \<longleftrightarrow> j < k"
  by (simp add: day_text_def date_text_less ymd_of_day date_less_iff_ord)

lemma day_text_inject: "in_calendar j \<Longrightarrow> in_calendar k \<Longrightarrow> day_text j = day_text k \<longleftrightarrow> j = k"
  using day_text_less [of j k] day_text_less [of k j] by (metis less_irrefl linorder_neqE)

lemma sort_day_text:
  assumes "\<forall>k\<in>set ks. in_calendar k"
  shows "sort (map day_text ks) = map day_text (sort ks)"
proof (rule properties_for_sort)
  show "mset (map day_text (sort ks)) = mset (map day_text ks)" by simp
  have "sorted_wrt (\<lambda>j k. day_text j \<le> day_text k) (sort ks)"
    by (rule sorted_wrt_mono_rel [OF _ sorted_sort]) (use assms day_text_less day_text_inject in \<open>fastforce simp: le_less\<close>)
  then show "sorted (map day_text (sort ks))" by (simp add: sorted_wrt_map)
qed

subsection \<open>The rows with text keys\<close>

type_synonym text_rows = "(string \<times> row) list"

definition file_rows :: "rows \<Rightarrow> text_rows" where
  "file_rows d = map (\<lambda>(k, b). (day_text k, b)) d"

definition day_file :: "knobs \<Rightarrow> rat \<Rightarrow> text_rows \<Rightarrow> text_rows" where
  "day_file kn ts d =
     (let k = day_text (day_key ts) in
      case map_of d k of
        Some b \<Rightarrow> d
      | None \<Rightarrow>
          (let d1 = d @ [(k, new_row)] in
           if int (length d1) > MAX_DAYS kn
           then filter (\<lambda>e. fst e \<notin> set (slice_to (- MAX_DAYS kn) (sort (map fst d1)))) d1
           else d1))"

definition window_file :: "int \<Rightarrow> nat \<Rightarrow> text_rows \<Rightarrow> rat \<times> rat" where
  "window_file today days d =
     (let bs = map (\<lambda>i. map_of d (day_text (today - int i))) [0..<days] in
      (sum_list (map (\<lambda>b. case b of None \<Rightarrow> 0 | Some b \<Rightarrow> r_up b) bs),
       sum_list (map (\<lambda>b. case b of None \<Rightarrow> 0 | Some b \<Rightarrow> r_down b) bs)))"

definition rows_in_calendar :: "rows \<Rightarrow> bool" where
  "rows_in_calendar d \<longleftrightarrow> (\<forall>k\<in>fst ` set d. in_calendar k)"

lemma map_of_file_rows:
  "rows_in_calendar d \<Longrightarrow> in_calendar k \<Longrightarrow> map_of (file_rows d) (day_text k) = map_of d k"
  by (induction d) (auto simp: file_rows_def rows_in_calendar_def day_text_inject)

lemma fst_file_rows: "map fst (file_rows d) = map day_text (map fst d)"
  by (simp add: file_rows_def case_prod_beta comp_def)

lemma slice_to_map: "slice_to k (map f xs) = map f (slice_to k xs)"
  by (simp add: slice_to_def take_map)

lemma slice_to_subset: "set (slice_to k xs) \<subseteq> set xs"
  by (auto simp: slice_to_def dest: in_set_takeD)

lemma prune_file_rows:
  assumes "rows_in_calendar d"
  shows "filter (\<lambda>e. fst e \<notin> set (slice_to m (sort (map fst (file_rows d))))) (file_rows d)
    = file_rows (filter (\<lambda>e. fst e \<notin> set (slice_to m (sort (map fst d)))) d)"
proof -
  have sl: "set (slice_to m (sort (map fst (file_rows d)))) = day_text ` set (slice_to m (sort (map fst d)))"
    using assms by (simp add: fst_file_rows sort_day_text rows_in_calendar_def slice_to_map del: map_map)
  have "inj_on day_text (fst ` set d)"
    using assms by (auto simp: inj_on_def rows_in_calendar_def day_text_inject)
  then have "day_text (fst e) \<in> day_text ` set (slice_to m (sort (map fst d))) \<longleftrightarrow> fst e \<in> set (slice_to m (sort (map fst d)))"
    if "e \<in> set d" for e
    using that slice_to_subset [of m "sort (map fst d)"] by (intro inj_on_image_mem_iff) auto
  then show ?thesis
    unfolding sl by (simp add: file_rows_def filter_map comp_def case_prod_beta cong: filter_cong)
qed

lemma day_file_rows:
  assumes "rows_in_calendar d" "in_calendar (day_key ts)"
  shows "day_file kn ts (file_rows d) = file_rows (day kn ts d)"
proof -
  let ?d1 = "d @ [(day_key ts, new_row)]"
  have "rows_in_calendar ?d1" using assms by (auto simp: rows_in_calendar_def)
  from prune_file_rows [OF this, of "- MAX_DAYS kn"] show ?thesis
    using map_of_file_rows [OF assms]
    by (simp add: day_file_def day_def Let_def file_rows_def split: option.split)
qed

lemma window_file_rows:
  assumes "rows_in_calendar d" "in_calendar today" "int days \<le> today + 1"
  shows "window_file today days (file_rows d) = window today days d"
proof -
  have "in_calendar (today - int i)" if "i < days" for i using that assms(2,3) by (auto simp: in_calendar_def)
  then have "map (\<lambda>i. map_of (file_rows d) (day_text (today - int i))) [0..<days] = map (\<lambda>i. map_of d (today - int i)) [0..<days]"
    using map_of_file_rows [OF assms(1)] by simp
  then show ?thesis by (simp only: window_file_def window_def)
qed

subsection \<open>Reports\<close>

definition show_count :: "nat \<Rightarrow> string" where
  "show_count n = show_int (int n)"

definition newline :: string where
  "newline = [CHR 0x0A]"

definition uptime_line :: "int \<Rightarrow> stats \<Rightarrow> string" where
  "uptime_line today s =
     (let u = uptime_summary today s in
      ''uptime 24h '' @ u_24h u @ '' | 7d '' @ u_7d u @ '' | 30d '' @ u_30d u @ '' | all '' @ u_all u
      @ '' | outages '' @ show_count (u_outages u) @ '' ('' @ show_count (u_alerted u) @ '' alerted)'')"

definition report_block :: "int \<Rightarrow> stats \<Rightarrow> string" where
  "report_block today s =
     (let u = uptime_summary today s in
      join newline
       ([''Uptime: 24h '' @ u_24h u @ '', 7d '' @ u_7d u @ '', 30d '' @ u_30d u @ '', all '' @ u_all u @ ''.'',
         ''Outages recorded: '' @ show_count (u_outages u) @ '' ('' @ show_count (u_alerted u) @ '' reached the alert threshold).'']
        @ (case last_outage s of None \<Rightarrow> []
           | Some lo \<Rightarrow> [''Last outage: '' @ f_duration_h lo @ '' ending '' @ iso_text (f_end lo) @ '' ('' @ show_count (f_probes lo)
                          @ '' failed checks).''])
        @ (case u_since u of None \<Rightarrow> [] | Some t \<Rightarrow> [''Measuring since '' @ iso_text t @ ''.''])))"

subsection \<open>Alerts to ntfy\<close>

record ntfy =
  NTFY_URL :: string
  NTFY_TOKEN :: string

record push_request =
  q_url :: string
  q_headers :: "(string \<times> string) list"
  q_data :: string

text \<open>
  The requests \<open>notify\<close> makes: none without a URL, else one.  Whatever becomes of it, the program
  goes on; the reply is read and dropped.
\<close>

definition notify :: "ntfy \<Rightarrow> string \<times> string \<times> string \<times> string \<Rightarrow> push_request list" where
  "notify n a =
     (case a of (title, message, priority, tags) \<Rightarrow>
       (if NTFY_URL n = [] then []
        else [\<lparr>q_url = NTFY_URL n,
               q_headers = [(''Title'', utf8 title), (''Priority'', priority), (''Tags'', tags)]
                 @ (if NTFY_TOKEN n \<noteq> [] then [(''Authorization'', ''Bearer '' @ NTFY_TOKEN n)] else []),
               q_data = utf8 message\<rparr>]))"

subsection \<open>The probe\<close>

text \<open>\<open>repr\<close> of bytes.\<close>

definition hex_lower :: "nat \<Rightarrow> char" where
  "hex_lower n = (if n < 10 then char_of (48 + n) else char_of (87 + n))"

definition byte_repr :: "char \<Rightarrow> char \<Rightarrow> string" where
  "byte_repr q c =
     (let n = of_char c :: nat in
      if c = q \<or> c = CHR 0x5C then [CHR 0x5C, c]
      else if n = 9 then [CHR 0x5C, CHR ''t''] else if n = 10 then [CHR 0x5C, CHR ''n'']
      else if n = 13 then [CHR 0x5C, CHR ''r'']
      else if n < 32 \<or> 127 \<le> n then [CHR 0x5C, CHR ''x'', hex_lower (n div 16), hex_lower (n mod 16)]
      else [c])"

definition bytes_repr :: "string \<Rightarrow> string" where
  "bytes_repr s =
     (let q = (if CHR 0x27 \<in> set s \<and> CHR 0x22 \<notin> set s then CHR 0x22 else CHR 0x27)
      in [CHR ''b'', q] @ concat (map (byte_repr q) s) @ [q])"

text \<open>
  What the connection gives: the first bytes the server sends, or the name and the text of the
  exception raised on the way (connecting, the TLS handshake, reading).  \<open>dec\<close> is
  \<open>bytes.decode(errors="replace")\<close>.
\<close>

datatype probe_io = Banner string | Raised string string

definition probe :: "(string \<Rightarrow> string) \<Rightarrow> probe_io \<Rightarrow> rat \<Rightarrow> bool \<times> string \<times> rat" where
  "probe dec io elapsed =
     (let latency = elapsed * 1000 in
      case io of
        Banner b \<Rightarrow>
          (if prefix ''* OK'' b then (True, strip (dec b), latency)
           else (False, ''unexpected greeting: '' @ bytes_repr b, latency))
      | Raised name msg \<Rightarrow> (False, name @ '': '' @ msg, latency))"

lemma probe_healthy: "fst (probe dec io t) \<longleftrightarrow> (\<exists>b. io = Banner (''* OK'' @ b))"
  by (cases io) (auto simp: probe_def Let_def prefix_def)

subsection \<open>How far a printed percentage is from the exact one\<close>

lemma round_even_near: "\<bar>x - of_int (round_even x)\<bar> \<le> 1 / 2"
proof -
  have "of_int \<lfloor>x\<rfloor> \<le> x" "x < of_int \<lfloor>x\<rfloor> + 1" by linarith+
  then show ?thesis by (auto simp: round_even_def Let_def abs_le_iff)
qed

lemma round_even_mono_bounds:
  assumes "of_int a \<le> x" "x \<le> of_int b"
  shows "a \<le> round_even x" "round_even x \<le> b"
proof -
  have r: "round_even x \<in> {\<lfloor>x\<rfloor>, \<lfloor>x\<rfloor> + 1}" by (simp add: round_even_def Let_def)
  have "a \<le> \<lfloor>x\<rfloor>" using assms(1) by (simp add: le_floor_iff)
  with r show "a \<le> round_even x" by auto
  have "\<lfloor>x\<rfloor> \<le> b" using assms(2) floor_mono [OF assms(2)] by simp
  moreover have "round_even x = \<lfloor>x\<rfloor>" if "\<lfloor>x\<rfloor> = b"
  proof -
    have "x = of_int b" using that assms(2) by (metis antisym of_int_floor_le)
    then show ?thesis by (simp add: round_even_def)
  qed
  ultimately show "round_even x \<le> b" using r by force
qed

definition percent :: "rat \<Rightarrow> rat \<Rightarrow> int" where
  "percent up down = round_even (100 * up / (up + down) * 100)"

lemma pct_percent:
  "pct up down = (if up + down \<le> 0 then ''n/a''
     else show_int (percent up down div 100) @ ''.'' @ two_digits (percent up down mod 100) @ ''%'')"
  by (simp add: pct_def percent_def Let_def)

subsection \<open>The keys of the rows are dates\<close>

lemma day_keys: "rows_in_calendar d \<Longrightarrow> in_calendar (day_key ts) \<Longrightarrow> rows_in_calendar (day kn ts d)"
  by (auto simp: rows_in_calendar_def dest: day_set)

lemma on_day_keys_calendar [simp]: "rows_in_calendar (on_day ts f d) = rows_in_calendar d"
  by (simp add: rows_in_calendar_def)

lemma record_probe_keys:
  assumes "record_probe kn ts h det lat (s, d) = (ev, s', d')" "rows_in_calendar (daily s)" "in_calendar (day_key ts)"
  shows "rows_in_calendar (daily s')"
proof -
  have "rows_in_calendar (daily (account kn ts s))"
    using assms(2,3) day_keys by (auto simp: account_def Let_def split: option.split)
  with assms(1,3) show ?thesis by (auto simp: record_defs day_keys split: if_splits option.splits)
qed

lemma record_all_keys:
  assumes "\<forall>p\<in>set ps. in_calendar (day_key (fst p))" "rows_in_calendar (daily (fst sd))"
  shows "rows_in_calendar (daily (fst (record_all kn ps sd)))"
  using assms
proof (induction kn ps sd rule: record_all.induct)
  case (2 kn ts h det lat ps sd)
  obtain s d where sd: "sd = (s, d)" by (cases sd)
  obtain ev s' d' where r: "record_probe kn ts h det lat (s, d) = (ev, s', d')"
    by (cases "record_probe kn ts h det lat (s, d)")
  with 2 sd record_probe_keys [OF r] show ?case by simp
qed simp

lemma length_date_text [simp]: "length (date_text dt) = 10"
  by (cases dt) (simp add: date_text_def)



text \<open>
  C38.  The rows that the program keys by the text of the day are the numbered rows of the model: making
  room for a new day, which sorts the keys as text, removes the same rows, and a window, which
  looks them up by text, adds up the same seconds.
\<close>

theorem text_rows_refine:
  assumes "rows_in_calendar d" "in_calendar (day_key ts)" "in_calendar today" "int days \<le> today + 1"
  shows "day_file kn ts (file_rows d) = file_rows (day kn ts d) \<and>
    window_file today days (file_rows (day kn ts d)) = window today days (day kn ts d)"
  using assms by (simp add: day_file_rows window_file_rows day_keys)

theorem text_rows_refine_witness:
  "day_file sample_knobs 0 (file_rows []) = file_rows (day sample_knobs 0 [])"
  using text_rows_refine [of "[]" 0 0 1 sample_knobs]
  by (simp add: rows_in_calendar_def day_key_def round_even_def in_calendar_def)

text \<open>
  C40.  The overall uptime that the watchdog reports is \<open>n/a\<close> only if nothing was monitored yet, and
  otherwise a percentage between 0.00 and 100.00 that differs from the exact one by at most half a
  hundredth of a percent.
\<close>

theorem uptime_text_accurate:
  assumes "(s, d) = record_all kn ps (load no_disk, no_disk)"
  shows "if monitored_s (lifetime s) = 0 then u_all (uptime_summary today s) = ''n/a''
    else \<exists>n. u_all (uptime_summary today s) = show_int (n div 100) @ ''.'' @ two_digits (n mod 100) @ ''%'' \<and> 0 \<le> n \<and> n \<le> 10000 \<and>
      \<bar>up_s (lifetime s) / monitored_s (lifetime s) - of_int n / 10000\<bar> \<le> 1 / 20000"
proof -
  have l: "up_s (lifetime s) + down_s (lifetime s) = monitored_s (lifetime s)" "0 \<le> up_s (lifetime s)" "0 \<le> down_s (lifetime s)"
    using stats_ok_record_all [OF stats_ok_fresh, of kn ps] unfolding assms [symmetric] by (simp_all add: stats_ok_def life_ok_def)
  let ?x = "100 * up_s (lifetime s) / monitored_s (lifetime s) * 100"
  let ?n = "percent (up_s (lifetime s)) (down_s (lifetime s))"
  show ?thesis
  proof (cases "monitored_s (lifetime s) = 0")
    case False
    with l have m: "0 < monitored_s (lifetime s)" "up_s (lifetime s) \<le> monitored_s (lifetime s)" by linarith+
    then have "of_int 0 \<le> ?x" "?x \<le> of_int 10000" using l(2) by (simp_all add: field_simps)
    from round_even_mono_bounds [OF this] have "0 \<le> ?n" "?n \<le> 10000" by (simp_all add: percent_def l(1))
    moreover have "\<bar>?x - of_int ?n\<bar> \<le> 1 / 2" using round_even_near [of ?x] by (simp add: percent_def l(1))
    then have "\<bar>?x - of_int ?n\<bar> / 10000 \<le> 1 / 20000" by simp
    then have "\<bar>up_s (lifetime s) / monitored_s (lifetime s) - of_int ?n / 10000\<bar> \<le> 1 / 20000"
      using abs_divide [of "?x - of_int ?n" 10000] by (simp add: diff_divide_distrib)
    ultimately show ?thesis using m False by (auto simp: uptime_summary_def pct_percent l(1) intro!: exI [of _ ?n])
  qed (simp add: uptime_summary_def pct_percent l(1))
qed

theorem uptime_text_accurate_witness:
  "u_all (uptime_summary 0 (fst (record_all sample_knobs [] (load no_disk, no_disk)))) = ''n/a''"
  using uptime_text_accurate [of "fst (record_all sample_knobs [] (load no_disk, no_disk))" "snd (record_all sample_knobs [] (load no_disk, no_disk))" sample_knobs "[]" 0]
  by (simp add: load_def no_disk_def new_life_def)

subsection \<open>A crash while the statistics are saved\<close>

text \<open>
  The effects of \<open>save\<close> on the directory, in order: \<open>_write_atomic\<close> writes a temporary file, which no
  one reads, and renames it, first for \<open>state.json\<close>, then for \<open>daily.json\<close>.
\<close>

definition write_atomic_steps :: "(disk \<Rightarrow> disk) \<Rightarrow> (disk \<Rightarrow> disk) list" where
  "write_atomic_steps replace = [id, replace]"

definition save_steps :: "bool \<Rightarrow> stats \<Rightarrow> (disk \<Rightarrow> disk) list" where
  "save_steps healthy s =
     write_atomic_steps (\<lambda>d. d\<lparr>d_state := Some \<lparr>sn_lifetime = lifetime s, sn_boot_count = boot_count s,
       sn_last_probe_at = last_probe_at s, sn_healthy = healthy, sn_current_outage = current_outage s,
       sn_last_outage = last_outage s\<rparr>\<rparr>)
     @ write_atomic_steps (\<lambda>d. d\<lparr>d_daily := Some (daily s)\<rparr>)"

definition crash_save :: "nat \<Rightarrow> bool \<Rightarrow> stats \<Rightarrow> disk \<Rightarrow> disk" where
  "crash_save n healthy s d = fold (\<lambda>f. f) (take n (save_steps healthy s)) d"

lemma save_steps_all: "\<not> d_broken d \<Longrightarrow> fold (\<lambda>f. f) (save_steps healthy s) d = save healthy s d"
  by (simp add: save_steps_def write_atomic_steps_def save_def)

lemma crash_save_cases:
  assumes "\<not> d_broken d"
  shows "crash_save n healthy s d = (if n < 2 then d else if n < 4 then (save healthy s d)\<lparr>d_daily := d_daily d\<rparr> else save healthy s d)"
proof -
  consider "n = 0" | "n = 1" | "n = 2" | "n = 3" | "4 \<le> n" by linarith
  then show ?thesis
    using assms save_steps_all [OF assms, of healthy s]
    by cases (simp_all add: crash_save_def save_steps_def write_atomic_steps_def save_def numeral_2_eq_2 numeral_3_eq_3)
qed

text \<open>
  Wherever the watchdog is stopped while it saves, it restarts from a complete snapshot: the one
  saved before, or the new one, never a mixture; the rows may lag behind the snapshot, but are
  never ahead of it, and rows that were saved before are still there.
\<close>

theorem crash_keeps_a_snapshot:
  assumes "\<not> d_broken d"
  shows "d_state (crash_save n healthy s d) \<in> {d_state d, d_state (save healthy s d)} \<and>
    d_daily (crash_save n healthy s d) \<in> {d_daily d, Some (daily s)} \<and>
    (d_daily (crash_save n healthy s d) = d_daily d \<or> load (crash_save n healthy s d) = load (save healthy s d)) \<and>
    d_outages (crash_save n healthy s d) = d_outages d"
  using assms by (simp add: crash_save_cases save_def)

theorem crash_keeps_a_snapshot_witness:
  "d_state (crash_save 1 True (load no_disk) no_disk) \<in> {d_state no_disk, d_state (save True (load no_disk) no_disk)}"
  using crash_keeps_a_snapshot [of no_disk 1 True "load no_disk"] by (simp add: no_disk_def)

end
