(* ===== verification/Config.thy ===== *)
theory Config
  imports SyncEngine WatchReport
begin

text \<open>
  The configuration of the Python programs: what each module reads from the environment when it is
  imported.  \<open>env\<close> is \<open>os.environ\<close>; a number that \<open>int()\<close> refuses is a \<open>ValueError\<close> at import, so
  the program does not start.
\<close>

subsection \<open>Numbers\<close>

type_synonym env = "string \<Rightarrow> string option"

definition digit_of :: "char \<Rightarrow> nat option" where
  "digit_of c = (let n = of_char c in if 48 \<le> n \<and> n \<le> 57 then Some (n - 48) else None)"

text \<open>Decimal digits, with single underscores between them.\<close>

fun digits_value :: "nat \<Rightarrow> bool \<Rightarrow> string \<Rightarrow> nat option" where
  "digits_value acc after [] = (if after then Some acc else None)"
| "digits_value acc after (c # cs) =
     (case digit_of c of
        Some d \<Rightarrow> digits_value (acc * 10 + d) True cs
      | None \<Rightarrow> if c = CHR ''_'' \<and> after then (if cs = [] then None else digits_value acc False cs) else None)"

text \<open>\<open>int(s)\<close>.\<close>

definition py_int :: "string \<Rightarrow> int result" where
  "py_int s =
     (let t = strip s;
          v = (if t \<noteq> [] \<and> hd t = CHR ''-'' then map_option (\<lambda>n. - int n) (digits_value 0 False (tl t))
               else if t \<noteq> [] \<and> hd t = CHR ''+'' then map_option int (digits_value 0 False (tl t))
               else map_option int (digits_value 0 False t))
      in case v of None \<Rightarrow> Inl ValueError | Some n \<Rightarrow> Inr n)"

definition env_text :: "env \<Rightarrow> string \<Rightarrow> string \<Rightarrow> string" where
  "env_text env k dflt = (case env k of None \<Rightarrow> dflt | Some v \<Rightarrow> v)"

definition env_int :: "env \<Rightarrow> string \<Rightarrow> string \<Rightarrow> int result" where
  "env_int env k dflt = py_int (env_text env k dflt)"

text \<open>Sequencing; the first exception ends it.\<close>

definition with_value :: "'a result \<Rightarrow> ('a \<Rightarrow> 'b result) \<Rightarrow> 'b result" where
  "with_value r f = (case r of Inl e \<Rightarrow> Inl e | Inr x \<Rightarrow> f x)"

lemma with_value_simps [simp]: "with_value (Inr x) f = f x" "with_value (Inl e) f = Inl e"
  by (simp_all add: with_value_def)

lemma with_value_Inr: "with_value r f = Inr y \<longleftrightarrow> (\<exists>x. r = Inr x \<and> f x = Inr y)"
  by (cases r) simp_all

subsection \<open>The mail container\<close>

record auth_config =
  MAIL_SERVER :: string
  MAIL_PORT :: int
  UNI_COOLDOWN :: int
  VMAIL_UID :: int
  VMAIL_GID :: int

definition auth_config_of :: "env \<Rightarrow> auth_config result" where
  "auth_config_of env =
     with_value (env_int env ''UPSTREAM_IMAP_PORT'' ''993'') (\<lambda>port.
     with_value (env_int env ''ENROLL_COOLDOWN'' ''5'') (\<lambda>cooldown.
     with_value (env_int env ''VMAIL_UID'' ''5000'') (\<lambda>uid.
     with_value (env_int env ''VMAIL_GID'' ''5000'') (\<lambda>gid.
       Inr \<lparr>MAIL_SERVER = env_text env ''UPSTREAM_IMAP_HOST'' ''email.uni-graz.at'', MAIL_PORT = port,
            UNI_COOLDOWN = cooldown, VMAIL_UID = uid, VMAIL_GID = gid\<rparr>))))"

text \<open>\<open>sync.py\<close>: the settings of mbsync, and the port of its own LIST.\<close>

definition sync_config_of :: "env \<Rightarrow> (config \<times> int) result" where
  "sync_config_of env =
     with_value (env_int env ''UPSTREAM_IMAP_PORT'' ''993'') (\<lambda>port.
       Inr (\<lparr>cf_server = env_text env ''UPSTREAM_IMAP_HOST'' ''email.uni-graz.at'', cf_mode = env_text env ''SYNC_MODE'' ''All'',
             cf_patterns = env_text env ''SYNC_PATTERNS'' ''*'', cf_maxmsg = env_text env ''SYNC_MAXMSG'' ''0''\<rparr>, port))"

definition special_config_of :: "env \<Rightarrow> (string \<times> int) result" where
  "special_config_of env =
     with_value (env_int env ''UPSTREAM_IMAP_PORT'' ''993'') (\<lambda>port.
       Inr (env_text env ''UPSTREAM_IMAP_HOST'' ''email.uni-graz.at'', port))"

record idle_config =
  HOST :: string
  PORT :: int
  SYNC_INTERVAL :: int
  IDLE_REFRESH :: int
  IDLE_RESCAN :: int

definition idle_config_of :: "env \<Rightarrow> idle_config result" where
  "idle_config_of env =
     with_value (sync_config_of env) (\<lambda>(cf, _).
     with_value (env_int env ''UPSTREAM_IMAP_PORT'' ''993'') (\<lambda>port.
     with_value (env_int env ''SYNC_INTERVAL'' ''60'') (\<lambda>interval.
     with_value (env_int env ''IDLE_REFRESH'' ''1500'') (\<lambda>refresh.
     with_value (env_int env ''IDLE_RESCAN'' ''30'') (\<lambda>rescan.
       Inr \<lparr>HOST = cf_server cf, PORT = port, SYNC_INTERVAL = interval, IDLE_REFRESH = refresh, IDLE_RESCAN = rescan\<rparr>)))))"

definition UNI_HOST :: string where
  "UNI_HOST = ''email.uni-graz.at''"

definition UNI_PORT :: int where
  "UNI_PORT = 587"

subsection \<open>The watchdog\<close>

record watchdog_config =
  TARGET_HOST :: string
  TARGET_PORT :: int
  UPSTREAM_HOST :: string
  UPSTREAM_PORT :: int
  STATS_DIR :: string
  w_knobs :: knobs
  w_ntfy :: ntfy

definition watchdog_config_of :: "env \<Rightarrow> watchdog_config result" where
  "watchdog_config_of env =
     with_value (env_int env ''WATCHDOG_TARGET_PORT'' ''993'') (\<lambda>port.
     with_value (env_int env ''WATCHDOG_UPSTREAM_PORT'' ''993'') (\<lambda>uport.
     with_value (env_int env ''WATCHDOG_INTERVAL'' ''60'') (\<lambda>interval.
     with_value (env_int env ''WATCHDOG_FAIL_INTERVAL'' ''5'') (\<lambda>finterval.
     with_value (env_int env ''WATCHDOG_FAIL_THRESHOLD'' ''3'') (\<lambda>threshold.
     with_value (env_int env ''WATCHDOG_START_GRACE'' ''300'') (\<lambda>grace.
     with_value (env_int env ''WATCHDOG_MAX_DAYS'' ''400'') (\<lambda>days.
     with_value (env_int env ''WATCHDOG_MAX_OUTAGES'' ''2000'') (\<lambda>outs.
     with_value (env_int env ''WATCHDOG_MAX_SAMPLES'' ''600'') (\<lambda>samples.
     with_value (env_int env ''WATCHDOG_LOG_SUMMARY_EVERY'' ''3600'') (\<lambda>every.
       let uhost = strip (env_text env ''WATCHDOG_UPSTREAM_HOST'' '''') in
       Inr \<lparr>TARGET_HOST = env_text env ''WATCHDOG_TARGET_HOST'' ''mail'', TARGET_PORT = port,
            UPSTREAM_HOST = uhost, UPSTREAM_PORT = uport, STATS_DIR = env_text env ''WATCHDOG_STATS_DIR'' ''/data'',
            w_knobs = \<lparr>INTERVAL = interval, FAIL_INTERVAL = finterval, FAIL_THRESHOLD = threshold, START_GRACE = grace,
              MAX_DAYS = days, MAX_OUTAGES = outs, MAX_SAMPLES = samples, LOG_SUMMARY_EVERY = every,
              DAILY_SUMMARY = (strip (env_text env ''WATCHDOG_DAILY_SUMMARY'' ''0'') = ''1''), UPSTREAM = (uhost \<noteq> [])\<rparr>,
            w_ntfy = \<lparr>NTFY_URL = strip (env_text env ''NTFY_URL'' ''''), NTFY_TOKEN = strip (env_text env ''NTFY_TOKEN'' '''')\<rparr>\<rparr>))))))))))"

subsection \<open>Numbers are read back\<close>

lemma digit_of_char: "d < 10 \<Longrightarrow> digit_of (char_of (48 + d)) = Some d"
  by (simp add: digit_of_def of_char_of)

lemma digits_value_append: "digits_value acc after s = Some n \<Longrightarrow> d < 10 \<Longrightarrow>
   digits_value acc after (s @ [char_of (48 + d)]) = Some (n * 10 + d)"
  by (induction acc after s rule: digits_value.induct) (auto simp: digit_of_char split: option.splits if_splits)

lemma digits_value_show: "digits_value 0 after (show_nat n) = Some n"
proof (induction n rule: show_nat.induct)
  case (1 n)
  then show ?case
    by (subst show_nat.simps) (auto simp: digit_of_char digits_value_append)
qed

lemma show_nat_chars: "c \<in> set (show_nat n) \<Longrightarrow> digit_of c \<noteq> None"
proof (induction n rule: show_nat.induct)
  case (1 n)
  then show ?case by (subst (asm) (2) show_nat.simps) (auto simp: digit_of_char split: if_splits)
qed

lemma digit_not_space: "digit_of c \<noteq> None \<Longrightarrow> \<not> str_space c \<and> c \<noteq> CHR ''-'' \<and> c \<noteq> CHR ''+''"
  by (auto simp: digit_of_def str_space_def Let_def split: if_splits)

lemma show_nat_ends: "\<not> str_space (hd (show_nat n))" "\<not> str_space (last (show_nat n))"
  "hd (show_nat n) \<noteq> CHR ''-''" "hd (show_nat n) \<noteq> CHR ''+''"
  using show_nat_chars digit_not_space hd_in_set [OF show_nat_not_Nil [of n]] last_in_set [OF show_nat_not_Nil [of n]] by blast+

lemma py_int_show: "py_int (show_int n) = Inr n"
proof (cases "n < 0")
  case True
  have "strip (CHR ''-'' # show_nat (nat (- n))) = CHR ''-'' # show_nat (nat (- n))"
    unfolding strip_def by (rule strip_by_id) (simp_all add: show_nat_ends, simp add: str_space_def)
  with True show ?thesis by (simp add: py_int_def show_int_def digits_value_show)
next
  case False
  have "strip (show_nat (nat n)) = show_nat (nat n)"
    unfolding strip_def by (rule strip_by_id) (simp_all add: show_nat_ends)
  with False show ?thesis by (simp add: py_int_def show_int_def digits_value_show show_nat_ends Let_def)
qed

text \<open>
  The values that are documented as the defaults hold when the environment says nothing.
\<close>

lemma py_int_examples:
  "py_int ''993'' = Inr 993" "py_int '' -1_000 '' = Inr (-1000)" "py_int ''5s'' = Inl ValueError" "py_int [] = Inl ValueError"
  by (simp_all add: py_int_def strip_def strip_by_def str_space_def digit_of_def Let_def)

lemma watchdog_defaults:
  "watchdog_config_of Map.empty = Inr \<lparr>TARGET_HOST = ''mail'', TARGET_PORT = 993, UPSTREAM_HOST = [], UPSTREAM_PORT = 993,
     STATS_DIR = ''/data'', w_knobs = \<lparr>INTERVAL = 60, FAIL_INTERVAL = 5, FAIL_THRESHOLD = 3, START_GRACE = 300,
       MAX_DAYS = 400, MAX_OUTAGES = 2000, MAX_SAMPLES = 600, LOG_SUMMARY_EVERY = 3600, DAILY_SUMMARY = False, UPSTREAM = False\<rparr>,
     w_ntfy = \<lparr>NTFY_URL = [], NTFY_TOKEN = []\<rparr>\<rparr>"
  by (simp add: watchdog_config_of_def env_int_def env_text_def py_int_def strip_def strip_by_def str_space_def digit_of_def Let_def)

text \<open>
  \<open>UPSTREAM_IMAP_PORT\<close> reaches the LIST of \<open>sync.py\<close> but not mbsync, whose configuration has the port as a
  literal: with another port the two talk to different servers.
\<close>

lemma mbsync_ignores_port:
  assumes "sync_config_of env = Inr (cf, port)" "sync_config_of (env(''UPSTREAM_IMAP_PORT'' \<mapsto> show_int n)) = Inr (cf', port')"
  shows "port' = n \<and> mbsyncrc cf' email md = mbsyncrc cf email md"
  using assms by (auto simp: sync_config_of_def with_value_Inr env_int_def env_text_def py_int_show)

end
