(* ===== verification/WatchLoop.thy ===== *)
theory WatchLoop
  imports WatchReport
begin

text \<open>
  \<open>watchdog/watchdog.py\<close>: \<open>main\<close>, the loop that probes, alerts and saves.

  One iteration is \<open>loop_step\<close>, on the readings of that iteration (\<open>reading\<close>: the clock, the probe
  of the mail server, the monotonic clock, the probe of the path to the university).  It gives
  the alerts in the order they are pushed, the pause before the next probe, and the new state.
  \<open>alert_text\<close> gives what an alert says and \<open>pushes\<close> the requests to ntfy; a push that fails is
  logged and dropped by \<open>notify\<close>, so it changes nothing.  Of the container log only the periodic
  uptime lines are kept (\<open>l_lines\<close>).
\<close>

subsection \<open>Alerts\<close>

datatype alert =
    Online
  | Recovered string
  | Down nat string
  | NeverUp string
  | UpstreamDown string
  | UpstreamRestored
  | DailySummary

text \<open>The priorities of ntfy, in their order.\<close>

datatype priority = Low | Default | High

instantiation priority :: linorder
begin

fun rank :: "priority \<Rightarrow> nat" where
  "rank Low = 0"
| "rank Default = 1"
| "rank High = 2"

definition less_eq_priority :: "priority \<Rightarrow> priority \<Rightarrow> bool" where
  "less_eq_priority p q \<longleftrightarrow> rank p \<le> rank q"

definition less_priority :: "priority \<Rightarrow> priority \<Rightarrow> bool" where
  "less_priority p q \<longleftrightarrow> rank p < rank q"

lemma rank_inject: "rank p = rank q \<Longrightarrow> p = q"
  by (cases p; cases q) simp_all

instance
  by standard (auto simp: less_eq_priority_def less_priority_def dest: rank_inject)

end

fun alert_priority :: "alert \<Rightarrow> priority" where
  "alert_priority (Down _ _) = High"
| "alert_priority (NeverUp _) = High"
| "alert_priority DailySummary = Low"
| "alert_priority _ = Default"

subsection \<open>State\<close>

record reading =
  ob_now :: rat
  ob_healthy :: bool
  ob_detail :: string
  ob_latency :: rat
  ob_mono :: rat
  ob_up_ok :: bool
  ob_up_detail :: string

record loop =
  l_stats :: stats
  l_disk :: disk
  l_state :: "bool option"
  l_fails :: nat
  l_started :: rat
  l_warned :: bool
  l_day :: int
  l_upstream :: "bool option"
  l_logged :: rat
  l_lines :: "string list"

definition start_loop :: "rat \<Rightarrow> rat \<Rightarrow> disk \<Rightarrow> loop" where
  "start_loop t0 now d =
     (let s = load d in
      \<lparr>l_stats = s, l_disk = d,
       l_state = (if current_outage s \<noteq> None then Some False else None),
       l_fails = (case current_outage s of None \<Rightarrow> 0 | Some oc \<Rightarrow> o_probes oc),
       l_started = t0, l_warned = False, l_day = day_key now, l_upstream = None,
       l_logged = t0, l_lines = []\<rparr>)"

subsection \<open>One iteration\<close>

text \<open>The decision about the mail server, after the probe is recorded.\<close>

definition judge :: "knobs \<Rightarrow> reading \<Rightarrow> loop \<Rightarrow> alert list \<times> loop" where
  "judge kn ob l =
     (if ob_healthy ob then
        (case l_state l of
           None \<Rightarrow> [Online]
         | Some True \<Rightarrow> []
         | Some False \<Rightarrow> [Recovered (case last_outage (l_stats l) of None \<Rightarrow> ''?'' | Some lo \<Rightarrow> f_duration_h lo)],
         l\<lparr>l_state := Some True, l_fails := 0\<rparr>)
      else
        (let l1 = l\<lparr>l_fails := Suc (l_fails l)\<rparr> in
         if l_state l = Some True \<and> int (l_fails l1) \<ge> FAIL_THRESHOLD kn then
           ([Down (l_fails l1) (ob_detail ob)], l1\<lparr>l_stats := mark_alerted (l_stats l1), l_state := Some False\<rparr>)
         else if l_state l = None \<and> \<not> l_warned l \<and> ob_mono ob - l_started l > of_int (START_GRACE kn) then
           ([NeverUp (ob_detail ob)], l1\<lparr>l_stats := mark_alerted (l_stats l1), l_warned := True\<rparr>)
         else ([], l1)))"

text \<open>The decision about the path to the university.\<close>

definition judge_upstream :: "knobs \<Rightarrow> reading \<Rightarrow> loop \<Rightarrow> alert list \<times> loop" where
  "judge_upstream kn ob l =
     (if \<not> UPSTREAM kn then ([], l)
      else if \<not> ob_up_ok ob \<and> l_upstream l \<noteq> Some False \<and> ob_healthy ob then
        ([UpstreamDown (ob_up_detail ob)], l\<lparr>l_upstream := Some False\<rparr>)
      else if ob_up_ok ob \<and> l_upstream l = Some False then ([UpstreamRestored], l\<lparr>l_upstream := Some True\<rparr>)
      else if ob_up_ok ob then ([], l\<lparr>l_upstream := Some True\<rparr>)
      else ([], l))"

text \<open>The uptime line in the container log.\<close>

definition judge_log :: "knobs \<Rightarrow> reading \<Rightarrow> loop \<Rightarrow> loop" where
  "judge_log kn ob l =
     (if LOG_SUMMARY_EVERY kn \<noteq> 0 \<and> ob_mono ob - l_logged l \<ge> of_int (LOG_SUMMARY_EVERY kn) then
        l\<lparr>l_lines := l_lines l @ [uptime_line (day_key (ob_now ob)) (l_stats l)], l_logged := ob_mono ob\<rparr>
      else l)"

definition judge_day :: "knobs \<Rightarrow> reading \<Rightarrow> loop \<Rightarrow> alert list \<times> loop" where
  "judge_day kn ob l =
     (let today = day_key (ob_now ob) in
      if DAILY_SUMMARY kn \<and> today \<noteq> l_day l then ([DailySummary], l\<lparr>l_day := today\<rparr>) else ([], l))"

definition pause :: "knobs \<Rightarrow> reading \<Rightarrow> int" where
  "pause kn ob = (if \<not> ob_healthy ob then FAIL_INTERVAL kn else INTERVAL kn)"

definition loop_step :: "knobs \<Rightarrow> reading \<Rightarrow> loop \<Rightarrow> alert list \<times> int \<times> loop" where
  "loop_step kn ob l =
     (case record_probe kn (ob_now ob) (ob_healthy ob) (ob_detail ob) (ob_latency ob) (l_stats l, l_disk l) of
        (ev, s, d) \<Rightarrow>
          (case judge kn ob (l\<lparr>l_stats := s, l_disk := d\<rparr>) of
             (a1, l1) \<Rightarrow>
               (case judge_upstream kn ob (l1\<lparr>l_disk := save (ob_healthy ob) (l_stats l1) (l_disk l1)\<rparr>) of
                  (a2, l2) \<Rightarrow>
                    (case judge_day kn ob (judge_log kn ob l2) of (a3, l3) \<Rightarrow> (a1 @ a2 @ a3, pause kn ob, l3)))))"

text \<open>The alerts of a sequence of iterations, one list for each.\<close>

fun loop_run :: "knobs \<Rightarrow> reading list \<Rightarrow> loop \<Rightarrow> alert list list \<times> loop" where
  "loop_run kn [] l = ([], l)"
| "loop_run kn (ob # obs) l =
     (case loop_step kn ob l of (a, p, l1) \<Rightarrow> (case loop_run kn obs l1 of (r, l2) \<Rightarrow> (a # r, l2)))"

subsection \<open>The alerts about the mail server\<close>

fun is_main :: "alert \<Rightarrow> bool" where
  "is_main Online = True"
| "is_main (Recovered _) = True"
| "is_main (Down _ _) = True"
| "is_main (NeverUp _) = True"
| "is_main _ = False"

definition main_alerts :: "alert list \<Rightarrow> alert list" where
  "main_alerts xs = filter is_main xs"

lemma main_alerts_simps [simp]:
  "main_alerts [] = []" "main_alerts (x # xs) = (if is_main x then x # main_alerts xs else main_alerts xs)"
  "main_alerts (xs @ ys) = main_alerts xs @ main_alerts ys"
  by (simp_all add: main_alerts_def)

lemma judge_upstream_main [simp]:
  "main_alerts (fst (judge_upstream kn ob l)) = []"
  "l_stats (snd (judge_upstream kn ob l)) = l_stats l" "l_state (snd (judge_upstream kn ob l)) = l_state l"
  "l_fails (snd (judge_upstream kn ob l)) = l_fails l" "l_warned (snd (judge_upstream kn ob l)) = l_warned l"
  "l_disk (snd (judge_upstream kn ob l)) = l_disk l" "l_started (snd (judge_upstream kn ob l)) = l_started l"
  by (simp_all add: judge_upstream_def)

lemma judge_day_main [simp]:
  "main_alerts (fst (judge_day kn ob l)) = []"
  "l_stats (snd (judge_day kn ob l)) = l_stats l" "l_state (snd (judge_day kn ob l)) = l_state l"
  "l_fails (snd (judge_day kn ob l)) = l_fails l" "l_warned (snd (judge_day kn ob l)) = l_warned l"
  "l_disk (snd (judge_day kn ob l)) = l_disk l" "l_started (snd (judge_day kn ob l)) = l_started l"
  by (simp_all add: judge_day_def Let_def)

lemma judge_log_main [simp]:
  "l_stats (judge_log kn ob l) = l_stats l" "l_state (judge_log kn ob l) = l_state l" "l_fails (judge_log kn ob l) = l_fails l"
  "l_warned (judge_log kn ob l) = l_warned l" "l_disk (judge_log kn ob l) = l_disk l" "l_started (judge_log kn ob l) = l_started l"
  by (simp_all add: judge_log_def)

text \<open>What a step does to the mail server's part of the state.\<close>

lemma loop_step_effect:
  assumes "loop_step kn ob l = (a, p, l')"
    and "record_probe kn (ob_now ob) (ob_healthy ob) (ob_detail ob) (ob_latency ob) (l_stats l, l_disk l) = (ev, s, d)"
    and "judge kn ob (l\<lparr>l_stats := s, l_disk := d\<rparr>) = (a1, l1)"
  shows "main_alerts a = main_alerts a1" "l_stats l' = l_stats l1" "l_state l' = l_state l1"
    "l_fails l' = l_fails l1" "l_warned l' = l_warned l1" "l_started l' = l_started l1"
    "l_disk l' = save (ob_healthy ob) (l_stats l1) (l_disk l1)" "p = pause kn ob"
proof -
  let ?l = "l1\<lparr>l_disk := save (ob_healthy ob) (l_stats l1) (l_disk l1)\<rparr>"
  obtain a2 l2 where 2: "judge_upstream kn ob ?l = (a2, l2)" by fastforce
  obtain a3 l3 where 3: "judge_day kn ob (judge_log kn ob l2) = (a3, l3)" by fastforce
  have eq: "a = a1 @ a2 @ a3" "p = pause kn ob" "l' = l3"
    using assms 2 3 by (simp_all add: loop_step_def)
  show "main_alerts a = main_alerts a1" "l_stats l' = l_stats l1" "l_state l' = l_state l1"
    "l_fails l' = l_fails l1" "l_warned l' = l_warned l1" "l_started l' = l_started l1"
    "l_disk l' = save (ob_healthy ob) (l_stats l1) (l_disk l1)" "p = pause kn ob"
    using judge_upstream_main [of kn ob ?l] judge_day_main [of kn ob "judge_log kn ob l2"] by (simp_all add: eq 2 3)
qed

lemma loop_run_append:
  "loop_run kn (xs @ ys) l = (fst (loop_run kn xs l) @ fst (loop_run kn ys (snd (loop_run kn xs l))),
     snd (loop_run kn ys (snd (loop_run kn xs l))))"
  by (induction kn xs l rule: loop_run.induct) (simp_all split: prod.split)

lemma loop_run_snoc:
  "loop_run kn (xs @ [x]) l = (case loop_step kn x (snd (loop_run kn xs l)) of (a, p, l1) \<Rightarrow> (fst (loop_run kn xs l) @ [a], l1))"
  by (simp add: loop_run_append split: prod.split)

lemma loop_run_Cons:
  "fst (loop_run kn (ob # obs) l) = fst (loop_step kn ob l) # fst (loop_run kn obs (snd (snd (loop_step kn ob l))))"
  "snd (loop_run kn (ob # obs) l) = snd (loop_run kn obs (snd (snd (loop_step kn ob l))))"
  by (simp_all split: prod.split)

text \<open>The number of failed probes since the last healthy one.\<close>

definition trailing :: "reading list \<Rightarrow> nat" where
  "trailing obs = length (takeWhile (\<lambda>ob. \<not> ob_healthy ob) (rev obs))"

lemma trailing_snoc: "trailing (obs @ [ob]) = (if ob_healthy ob then 0 else Suc (trailing obs))"
  by (simp add: trailing_def)

lemma trailing_pos: "trailing obs = length obs \<longleftrightarrow> (\<forall>ob\<in>set obs. \<not> ob_healthy ob)"
  by (induction obs rule: rev_induct) (auto simp: trailing_snoc trailing_def intro: le_antisym dest: length_takeWhile_le [THEN le_trans])

text \<open>An outage is open while probes fail; an alert belongs to the open outage or to an earlier one.\<close>

definition pushed :: "alert list list \<Rightarrow> nat" where
  "pushed as = length (filter (\<lambda>a. alert_priority a = High) (concat as))"

definition loop_inv :: "reading list \<Rightarrow> alert list list \<Rightarrow> loop \<Rightarrow> bool" where
  "loop_inv obs as l \<longleftrightarrow>
     l_fails l = trailing obs \<and>
     (current_outage (l_stats l) \<noteq> None \<longleftrightarrow> 0 < trailing obs) \<and>
     (l_state l = None \<longleftrightarrow> (\<forall>ob\<in>set obs. \<not> ob_healthy ob)) \<and>
     (l_state l = Some False \<longrightarrow> 0 < trailing obs) \<and>
     (l_state l = Some True \<or> l_state l = None \<and> \<not> l_warned l \<longrightarrow> open_alerts (l_stats l) = 0) \<and>
     alerted_outages (lifetime (l_stats l)) = pushed as"

lemma pushed_snoc: "pushed (as @ [a]) = pushed as + length (filter (\<lambda>x. alert_priority x = High) (main_alerts a))"
proof -
  have "filter (\<lambda>x. alert_priority x = High) (main_alerts a) = filter (\<lambda>x. alert_priority x = High) a"
    unfolding main_alerts_def filter_filter by (rule filter_cong) (auto elim: alert_priority.elims)
  then show ?thesis by (simp add: pushed_def)
qed

lemma mark_alerted_open:
  "current_outage s = Some oc \<Longrightarrow> open_alerts s = 0 \<Longrightarrow>
   alerted_outages (lifetime (mark_alerted s)) = Suc (alerted_outages (lifetime s)) \<and> current_outage (mark_alerted s) \<noteq> None"
  by (auto simp: mark_alerted_def open_alerts_def split: if_splits)

lemma loop_inv_step:
  assumes "loop_inv obs as l" "loop_step kn ob l = (a, p, l')"
  shows "loop_inv (obs @ [ob]) (as @ [a]) l'"
proof -
  obtain ev s d where r: "record_probe kn (ob_now ob) (ob_healthy ob) (ob_detail ob) (ob_latency ob) (l_stats l, l_disk l) = (ev, s, d)"
    using prod_cases3 by blast
  obtain a1 l1 where j: "judge kn ob (l\<lparr>l_stats := s, l_disk := d\<rparr>) = (a1, l1)" by fastforce
  note e = record_probe_effect [OF r] and s = loop_step_effect [OF assms(2) r j]
  note o = open_alerts_failing [of s kn "ob_now ob" "ob_detail ob" "ob_latency ob" "l_stats l"]
  have m: "ob_healthy ob \<Longrightarrow> open_alerts s = 0" using e(2) by (simp add: open_alerts_def)
  show ?thesis
  proof (cases "ob_healthy ob")
    case True
    with j have "l1 = l\<lparr>l_stats := s, l_disk := d, l_state := Some True, l_fails := 0\<rparr>" "filter (\<lambda>x. alert_priority x = High) (main_alerts a1) = []"
      by (auto simp: judge_def split: option.splits bool.splits)
    with assms(1) True e(2,9) m show ?thesis
      unfolding loop_inv_def s pushed_snoc by (simp add: trailing_snoc)
  next
    case False
    with e(2) have f: "current_outage s = Some (failing kn (ob_now ob) (ob_detail ob) (ob_latency ob) (l_stats l))"
        "open_alerts s = open_alerts (l_stats l)" using o by simp_all
    have inv: "l_fails l = trailing obs" "alerted_outages (lifetime s) = pushed as"
        "l_state l = None \<longleftrightarrow> (\<forall>ob\<in>set obs. \<not> ob_healthy ob)"
        "l_state l = Some True \<or> l_state l = None \<and> \<not> l_warned l \<longrightarrow> open_alerts s = 0"
      using assms(1) e(9) f(2) by (simp_all add: loop_inv_def)
    consider (down) "l_state l = Some True" "l1 = l\<lparr>l_stats := mark_alerted s, l_disk := d, l_fails := Suc (l_fails l), l_state := Some False\<rparr>"
          "a1 = [Down (Suc (l_fails l)) (ob_detail ob)]"
      | (never) "l_state l = None" "\<not> l_warned l" "a1 = [NeverUp (ob_detail ob)]"
          "l1 = l\<lparr>l_stats := mark_alerted s, l_disk := d, l_fails := Suc (l_fails l), l_warned := True\<rparr>"
      | (quiet) "a1 = []" "l1 = l\<lparr>l_stats := s, l_disk := d, l_fails := Suc (l_fails l)\<rparr>"
      using j False by (auto simp: judge_def Let_def split: if_splits)
    then show ?thesis
    proof cases
      case down
      with mark_alerted_open [OF f(1)] inv False show ?thesis unfolding loop_inv_def s pushed_snoc by (simp add: trailing_snoc)
    next
      case never
      with mark_alerted_open [OF f(1)] inv False show ?thesis unfolding loop_inv_def s pushed_snoc by (simp add: trailing_snoc)
    next
      case quiet
      with f(1) inv False show ?thesis unfolding loop_inv_def s pushed_snoc by (simp add: trailing_snoc)
    qed
  qed
qed

lemma loop_inv_start: "loop_inv [] [] (start_loop t0 now no_disk)"
  by (simp add: loop_inv_def start_loop_def load_def no_disk_def trailing_def Let_def open_alerts_def pushed_def new_life_def)

lemma loop_inv_run: "loop_inv obs (fst (loop_run kn obs (start_loop t0 now no_disk))) (snd (loop_run kn obs (start_loop t0 now no_disk)))"
proof (induction obs rule: rev_induct)
  case Nil
  then show ?case by (simp add: loop_inv_start)
next
  case (snoc ob obs)
  then show ?case using loop_inv_step [OF snoc, of kn ob] by (simp add: loop_run_snoc split: prod.split)
qed


text \<open>
  C35.  A DOWN alert is earned: in a run that starts with an empty directory it reports exactly the
  number of failed probes since the last healthy one, at least \<open>FAIL_THRESHOLD\<close> of them, and there
  was a healthy probe before them.
\<close>

theorem down_alert_after_threshold:
  assumes "loop_step kn ob (snd (loop_run kn obs (start_loop t0 now no_disk))) = (a, p, l')" "Down n det \<in> set a"
  shows "n = trailing (obs @ [ob]) \<and> FAIL_THRESHOLD kn \<le> int n \<and> \<not> ob_healthy ob \<and> det = ob_detail ob \<and>
    (\<exists>h\<in>set obs. ob_healthy h)"
proof -
  let ?l = "snd (loop_run kn obs (start_loop t0 now no_disk))"
  obtain ev s d where r: "record_probe kn (ob_now ob) (ob_healthy ob) (ob_detail ob) (ob_latency ob) (l_stats ?l, l_disk ?l) = (ev, s, d)"
    using prod_cases3 by blast
  obtain a1 l1 where j: "judge kn ob (?l\<lparr>l_stats := s, l_disk := d\<rparr>) = (a1, l1)" by fastforce
  have "Down n det \<in> set (main_alerts a)" using assms(2) by (simp add: main_alerts_def)
  then have "Down n det \<in> set a1" unfolding loop_step_effect(1) [OF assms(1) r j] by (simp add: main_alerts_def)
  moreover have "loop_inv obs (fst (loop_run kn obs (start_loop t0 now no_disk))) ?l" by (rule loop_inv_run)
  then have "l_fails ?l = trailing obs" "l_state ?l = None \<longleftrightarrow> (\<forall>ob\<in>set obs. \<not> ob_healthy ob)"
    by (simp_all add: loop_inv_def)
  ultimately show ?thesis
    using j by (auto simp: judge_def Let_def trailing_snoc split: if_splits option.splits bool.splits)
qed

text \<open>The order in which the alerts about the mail server may come.\<close>

fun ordered :: "bool option \<Rightarrow> bool \<Rightarrow> alert list \<Rightarrow> bool" where
  "ordered st wd [] = True"
| "ordered None wd (Online # xs) = ordered (Some True) wd xs"
| "ordered None False (NeverUp _ # xs) = ordered None True xs"
| "ordered (Some True) wd (Down _ _ # xs) = ordered (Some False) wd xs"
| "ordered (Some False) wd (Recovered _ # xs) = ordered (Some True) wd xs"
| "ordered _ _ _ = False"

lemma judge_ordered:
  assumes "judge kn ob l = (a1, l1)"
  shows "ordered (l_state l) (l_warned l) (a1 @ xs) \<longleftrightarrow> ordered (l_state l1) (l_warned l1) xs"
    "main_alerts a1 = a1"
  using assms by (auto simp: judge_def Let_def split: if_splits option.splits bool.splits)

lemma loop_run_ordered:
  "ordered (l_state l) (l_warned l) (main_alerts (concat (fst (loop_run kn obs l))))"
proof (induction kn obs l rule: loop_run.induct)
  case (2 kn ob obs l)
  obtain a p l' where st: "loop_step kn ob l = (a, p, l')" using prod_cases3 by blast
  obtain ev s d where r: "record_probe kn (ob_now ob) (ob_healthy ob) (ob_detail ob) (ob_latency ob) (l_stats l, l_disk l) = (ev, s, d)"
    using prod_cases3 by blast
  obtain a1 l1 where j: "judge kn ob (l\<lparr>l_stats := s, l_disk := d\<rparr>) = (a1, l1)" by fastforce
  note e = loop_step_effect [OF st r j]
  from 2 [OF st [symmetric] refl] show ?case
    using judge_ordered [OF j] e by (simp add: st loop_run_Cons del: loop_run.simps)
qed simp


text \<open>
  The count of alerted outages is the number of urgent alerts that were pushed, in a run that
  starts with an empty directory.
\<close>

theorem alerted_outages_counted:
  "alerted_outages (lifetime (l_stats (snd (loop_run kn obs (start_loop t0 now no_disk)))))
     = length (filter (\<lambda>a. Default < alert_priority a) (concat (fst (loop_run kn obs (start_loop t0 now no_disk)))))"
proof -
  have "Default < p \<longleftrightarrow> p = High" for p by (cases p) (simp_all add: less_priority_def)
  with loop_inv_run [of obs kn t0 now] show ?thesis by (simp add: loop_inv_def pushed_def)
qed

lemma failing_stays_silent:
  "l_state l = Some False \<Longrightarrow> \<forall>ob\<in>set obs. \<not> ob_healthy ob \<Longrightarrow>
   main_alerts (concat (fst (loop_run kn obs l))) = [] \<and> l_state (snd (loop_run kn obs l)) = Some False"
proof (induction kn obs l rule: loop_run.induct)
  case (2 kn ob obs l)
  obtain a p l' where st: "loop_step kn ob l = (a, p, l')" using prod_cases3 by blast
  obtain ev s d where r: "record_probe kn (ob_now ob) (ob_healthy ob) (ob_detail ob) (ob_latency ob) (l_stats l, l_disk l) = (ev, s, d)"
    using prod_cases3 by blast
  obtain a1 l1 where j: "judge kn ob (l\<lparr>l_stats := s, l_disk := d\<rparr>) = (a1, l1)" by fastforce
  note e = loop_step_effect [OF st r j]
  have "a1 = []" "l_state l1 = Some False" using j 2(2,3) by (auto simp: judge_def Let_def)
  with 2(1) [OF st [symmetric] refl] 2(3) e show ?case by (simp add: st loop_run_Cons del: loop_run.simps)
qed simp

text \<open>
  C37.  A restart in the middle of an outage that was not yet alerted loses the alert: the loop resumes as
  if DOWN had been sent, so however long the outage goes on no DOWN alert is pushed, and the
  first healthy probe is announced as a recovery from it.
\<close>

theorem resumed_outage_never_alerts:
  assumes "d_state d = Some sn" "sn_current_outage sn \<noteq> None" "\<forall>ob\<in>set obs. \<not> ob_healthy ob" "ob_healthy ob"
    and "loop_run kn (obs @ [ob]) (start_loop t0 now d) = (as @ [a], l)"
  shows "main_alerts (concat as) = [] \<and> (\<exists>dur. main_alerts a = [Recovered dur])"
proof -
  let ?start = "start_loop t0 now d"
  let ?l = "snd (loop_run kn obs ?start)"
  have "l_state ?start = Some False" using assms(1,2) by (auto simp: start_loop_def load_def Let_def)
  note q = failing_stays_silent [OF this assms(3), of kn, THEN conjunct1] failing_stays_silent [OF this assms(3), of kn, THEN conjunct2]
  obtain a' p l' where st: "loop_step kn ob ?l = (a', p, l')" using prod_cases3 by blast
  obtain ev s dk where r: "record_probe kn (ob_now ob) (ob_healthy ob) (ob_detail ob) (ob_latency ob) (l_stats ?l, l_disk ?l) = (ev, s, dk)"
    using prod_cases3 by blast
  obtain a1 l1 where j: "judge kn ob (?l\<lparr>l_stats := s, l_disk := dk\<rparr>) = (a1, l1)" by fastforce
  have "\<exists>dur. a1 = [Recovered dur]" using j q(2) assms(4) by (auto simp: judge_def)
  moreover have "as = fst (loop_run kn obs ?start)" "a = a'" using assms(5) by (simp_all add: loop_run_snoc st)
  ultimately show ?thesis using q(1) loop_step_effect(1) [OF st r j] by auto
qed


subsection \<open>Runs on concrete input\<close>

definition reading_at :: "rat \<Rightarrow> bool \<Rightarrow> reading" where
  "reading_at t h = \<lparr>ob_now = t, ob_healthy = h, ob_detail = ''d'', ob_latency = 1, ob_mono = t, ob_up_ok = True, ob_up_detail = []\<rparr>"

lemmas eval_loop = reading_at_def loop_step_def record_defs account_def attribute_cap_def judge_def judge_upstream_def judge_log_def judge_day_def
  start_loop_def load_def no_disk_def new_life_def add_failure_def open_outage_def mark_alerted_def save_def sample_knobs_def

lemma sample_down:
  "fst (loop_step sample_knobs (reading_at 70 False) (snd (loop_run sample_knobs
     [reading_at 0 True, reading_at 60 False, reading_at 65 False] (start_loop 0 0 no_disk)))) = [Down 3 ''d'']"
  by (simp add: eval_loop)


theorem down_alert_after_threshold_witness:
  "trailing [reading_at 0 True, reading_at 60 False, reading_at 65 False, reading_at 70 False] = 3"
proof -
  obtain a p l' where st: "loop_step sample_knobs (reading_at 70 False) (snd (loop_run sample_knobs
     [reading_at 0 True, reading_at 60 False, reading_at 65 False] (start_loop 0 0 no_disk))) = (a, p, l')"
    using prod_cases3 by blast
  with sample_down have "Down 3 ''d'' \<in> set a" by simp
  from down_alert_after_threshold [OF st this] show ?thesis by simp
qed


text \<open>A directory that holds an open outage which was not alerted.\<close>

definition crashed_disk :: disk where
  "crashed_disk = no_disk\<lparr>d_state := Some \<lparr>sn_lifetime = new_life, sn_boot_count = 1, sn_last_probe_at = Some 0, sn_healthy = False,
     sn_current_outage = Some (open_outage 0 1), sn_last_outage = None\<rparr>\<rparr>"

theorem resumed_outage_never_alerts_witness:
  "main_alerts (concat (fst (loop_run sample_knobs [reading_at 5 False, reading_at 10 False, reading_at 15 False, reading_at 20 False]
     (start_loop 0 0 crashed_disk)))) = []"
proof -
  let ?obs = "[reading_at 5 False, reading_at 10 False, reading_at 15 False, reading_at 20 False]"
  obtain a p l' where "loop_step sample_knobs (reading_at 25 True) (snd (loop_run sample_knobs ?obs (start_loop 0 0 crashed_disk))) = (a, p, l')"
    using prod_cases3 by blast
  then have "loop_run sample_knobs (?obs @ [reading_at 25 True]) (start_loop 0 0 crashed_disk)
      = (fst (loop_run sample_knobs ?obs (start_loop 0 0 crashed_disk)) @ [a], l')"
    by (simp only: loop_run_snoc prod.case)
  from resumed_outage_never_alerts [OF _ _ _ _ this] show ?thesis by (simp add: crashed_disk_def reading_at_def)
qed

subsection \<open>What an alert says\<close>

definition priority_text :: "priority \<Rightarrow> string" where
  "priority_text p = (case p of Low \<Rightarrow> ''low'' | Default \<Rightarrow> ''default'' | High \<Rightarrow> ''high'')"

text \<open>
  The arguments of \<open>notify\<close>: title, message, priority, tags.  \<open>today\<close> is the day the report is
  made on, \<open>up\<close> the seconds since the start; \<open>int\<close> truncates.
\<close>

definition alert_words :: "int \<Rightarrow> rat \<Rightarrow> stats \<Rightarrow> alert \<Rightarrow> string \<times> string \<times> string" where
  "alert_words today up s a =
     (case a of
        Online \<Rightarrow> (''EasyUniMailProxy online'', ''Mail path healthy.'' @ newline @ newline @ report_block today s, ''white_check_mark'')
      | Recovered dur \<Rightarrow> (''EasyUniMailProxy recovered'',
          ''Mail path reachable again after '' @ dur @ '' down.'' @ newline @ newline @ report_block today s, ''white_check_mark'')
      | Down fails detail \<Rightarrow> (''EasyUniMailProxy DOWN'',
          ''Mail path unreachable for '' @ show_count fails @ '' checks. The VPN or relay may be down.'' @ newline
            @ ''Last error: '' @ detail, ''rotating_light,warning'')
      | NeverUp detail \<Rightarrow> (''EasyUniMailProxy never came up'',
          ''No healthy mail path since startup ('' @ show_int \<lfloor>up\<rfloor> @ ''s). Check config / VPN.'' @ newline
            @ ''Last error: '' @ detail, ''warning'')
      | UpstreamDown detail \<Rightarrow> (''EasyUniMailProxy upstream down'',
          ''Cannot reach the university (tunnel/relay). Cached mail still opens, but new mail and sending are paused until it recovers.''
            @ newline @ detail, ''warning'')
      | UpstreamRestored \<Rightarrow> (''EasyUniMailProxy upstream restored'',
          ''The connection to the university is back; sync and send resume.'', ''arrows_counterclockwise'')
      | DailySummary \<Rightarrow> (''EasyUniMailProxy daily summary'', report_block today s, ''bar_chart''))"

definition alert_text :: "int \<Rightarrow> rat \<Rightarrow> stats \<Rightarrow> alert \<Rightarrow> string \<times> string \<times> string \<times> string" where
  "alert_text today up s a =
     (case alert_words today up s a of (title, message, tags) \<Rightarrow> (title, message, priority_text (alert_priority a), tags))"

text \<open>
  The requests of one iteration.  The alerts of an iteration are made on the statistics it ends with:
  nothing changes them between the first alert and the last.
\<close>

definition pushes :: "ntfy \<Rightarrow> knobs \<Rightarrow> reading \<Rightarrow> loop \<Rightarrow> push_request list" where
  "pushes n kn ob l =
     (case loop_step kn ob l of (as, p, l1) \<Rightarrow>
        concat (map (\<lambda>a. notify n (alert_text (day_key (ob_now ob)) (ob_mono ob - l_started l) (l_stats l1) a)) as))"

lemma length_notify: "length (notify n x) = (if NTFY_URL n = [] then 0 else 1)"
  by (cases x) (simp add: notify_def)

lemma pushes_count: "length (pushes n kn ob l) = (if NTFY_URL n = [] then 0 else length (fst (loop_step kn ob l)))"
  by (cases "loop_step kn ob l") (simp add: pushes_def length_concat comp_def length_notify sum_list_triv del: length_0_conv)

lemma notify_alert:
  assumes "q \<in> set (notify n (alert_text today up s a))"
  shows "q_url q = NTFY_URL n \<and> map_of (q_headers q) ''Priority'' = Some (priority_text (alert_priority a)) \<and>
    map_of (q_headers q) ''Authorization'' = (if NTFY_TOKEN n = [] then None else Some (''Bearer '' @ NTFY_TOKEN n))"
  using assms by (cases "alert_words today up s a") (auto simp: notify_def alert_text_def split: if_splits)

text \<open>Every push carries the priority of its alert, and the token when there is one.\<close>

lemma pushes_headers:
  assumes "q \<in> set (pushes n kn ob l)"
  shows "q_url q = NTFY_URL n \<and>
    map_of (q_headers q) ''Authorization'' = (if NTFY_TOKEN n = [] then None else Some (''Bearer '' @ NTFY_TOKEN n)) \<and>
    (\<exists>a\<in>set (fst (loop_step kn ob l)). map_of (q_headers q) ''Priority'' = Some (priority_text (alert_priority a)))"
proof -
  obtain as p l1 where st: "loop_step kn ob l = (as, p, l1)" using prod_cases3 by blast
  with assms obtain a where "a \<in> set as" "q \<in> set (notify n (alert_text (day_key (ob_now ob)) (ob_mono ob - l_started l) (l_stats l1) a))"
    by (auto simp: pushes_def)
  with notify_alert [OF this(2)] st show ?thesis by auto
qed

subsection \<open>The uptime lines in the log\<close>

lemma loop_step_log:
  assumes "loop_step kn ob l = (as, p, l')"
  shows "l_lines l' = l_lines l \<and> l_logged l' = l_logged l \<or>
    length (l_lines l') = Suc (length (l_lines l)) \<and> l_logged l' = ob_mono ob \<and> of_int (LOG_SUMMARY_EVERY kn) \<le> ob_mono ob - l_logged l"
proof -
  obtain ev s d where r: "record_probe kn (ob_now ob) (ob_healthy ob) (ob_detail ob) (ob_latency ob) (l_stats l, l_disk l) = (ev, s, d)"
    using prod_cases3 by blast
  obtain a1 l1 where j: "judge kn ob (l\<lparr>l_stats := s, l_disk := d\<rparr>) = (a1, l1)" by fastforce
  obtain a2 l2 where u: "judge_upstream kn ob (l1\<lparr>l_disk := save (ob_healthy ob) (l_stats l1) (l_disk l1)\<rparr>) = (a2, l2)" by fastforce
  obtain a3 l3 where y: "judge_day kn ob (judge_log kn ob l2) = (a3, l3)" by fastforce
  have "l_lines l1 = l_lines l" "l_logged l1 = l_logged l" using j by (auto simp: judge_def Let_def split: if_splits)
  moreover have "l_lines l2 = l_lines l1" "l_logged l2 = l_logged l1" using u by (auto simp: judge_upstream_def split: if_splits)
  moreover have "l_lines l3 = l_lines (judge_log kn ob l2)" "l_logged l3 = l_logged (judge_log kn ob l2)"
    using y by (auto simp: judge_day_def Let_def split: if_splits)
  ultimately show ?thesis using assms r j u y by (auto simp: loop_step_def judge_log_def)
qed

text \<open>
  The uptime lines are at least \<open>LOG_SUMMARY_EVERY\<close> seconds apart on the monotonic clock, so a run makes
  at most one for each such period.
\<close>

lemma log_lines_spaced:
  assumes "0 \<le> LOG_SUMMARY_EVERY kn" "loop_run kn obs (start_loop t0 now d) = (as, l)"
  shows "of_nat (length (l_lines l)) * of_int (LOG_SUMMARY_EVERY kn) \<le> l_logged l - t0"
  using assms(2)
proof (induction obs arbitrary: as l rule: rev_induct)
  case Nil
  then show ?case by (auto simp: start_loop_def Let_def)
next
  case (snoc ob obs)
  obtain as' l0 where 0: "loop_run kn obs (start_loop t0 now d) = (as', l0)" by fastforce
  obtain a p l' where st: "loop_step kn ob l0 = (a, p, l')" using prod_cases3 by blast
  have "l = l'" using snoc.prems by (simp add: loop_run_snoc 0 st)
  then show ?case using snoc.IH [OF 0] loop_step_log [OF st] by (auto simp: algebra_simps)
qed


subsection \<open>The readings of an iteration\<close>

text \<open>\<open>main\<close> probes the mail server, and after saving the path to the university.\<close>

definition observe :: "(string \<Rightarrow> string) \<Rightarrow> rat \<Rightarrow> rat \<Rightarrow> probe_io \<times> rat \<Rightarrow> probe_io \<times> rat \<Rightarrow> reading" where
  "observe dec t clock mail uni =
     (case (case_prod (probe dec) mail, case_prod (probe dec) uni) of
        ((healthy, detail, latency), (up_ok, up_detail, _)) \<Rightarrow>
          \<lparr>ob_now = t, ob_healthy = healthy, ob_detail = detail, ob_latency = latency, ob_mono = clock,
           ob_up_ok = up_ok, ob_up_detail = up_detail\<rparr>)"

lemma observe_healthy: "ob_healthy (observe dec t clock mail uni) \<longleftrightarrow> (\<exists>b. fst mail = Banner (''* OK'' @ b))"
  using probe_healthy [of dec "fst mail" "snd mail"] by (simp add: observe_def case_prod_beta)

end
