(* ===== verification/UrlParse.thy ===== *)
theory UrlParse
  imports Prelude
begin

text \<open>
  \<open>urllib.parse\<close> as \<open>vpn/headless.py\<close> uses it: \<open>urlparse\<close> with \<open>scheme\<close>, \<open>netloc\<close>, \<open>path\<close> and
  \<open>hostname\<close>, and \<open>urljoin\<close> (CPython 3.12).  A malformed bracketed address raises \<open>ValueError\<close>; the
  further checks of what is inside the brackets, and of a host with non-ASCII characters, are
  left out: they only reject more.
\<close>

record url =
  u_scheme :: string
  u_netloc :: string
  u_path :: string
  u_params :: string
  u_query :: string
  u_fragment :: string

definition uses_relative :: "string list" where
  "uses_relative = [[], ''ftp'', ''http'', ''gopher'', ''nntp'', ''imap'', ''wais'', ''file'', ''https'', ''shttp'', ''mms'',
     ''prospero'', ''rtsp'', ''rtsps'', ''rtspu'', ''sftp'', ''svn'', ''svn+ssh'', ''ws'', ''wss'']"

definition uses_netloc :: "string list" where
  "uses_netloc = [[], ''ftp'', ''http'', ''gopher'', ''nntp'', ''telnet'', ''imap'', ''wais'', ''file'', ''mms'', ''https'',
     ''shttp'', ''snews'', ''prospero'', ''rtsp'', ''rtsps'', ''rtspu'', ''rsync'', ''svn'', ''svn+ssh'', ''sftp'', ''nfs'',
     ''git'', ''git+ssh'', ''ws'', ''wss'', ''itms-services'']"

definition uses_params :: "string list" where
  "uses_params = [[], ''ftp'', ''hdl'', ''prospero'', ''http'', ''imap'', ''https'', ''shttp'', ''rtsp'', ''rtsps'', ''rtspu'',
     ''sip'', ''sips'', ''mms'', ''sftp'', ''tel'']"

definition alpha :: "char \<Rightarrow> bool" where
  "alpha c = (let n = (of_char c :: nat) in (65 \<le> n \<and> n \<le> 90) \<or> (97 \<le> n \<and> n \<le> 122))"

definition scheme_char :: "char \<Rightarrow> bool" where
  "scheme_char c \<longleftrightarrow> alpha c \<or> (48 \<le> (of_char c :: nat) \<and> (of_char c :: nat) \<le> 57) \<or> c \<in> {CHR ''+'', CHR ''-'', CHR ''.''}"

definition control_or_space :: "char \<Rightarrow> bool" where
  "control_or_space c \<longleftrightarrow> (of_char c :: nat) \<le> 32"

definition unsafe_byte :: "char \<Rightarrow> bool" where
  "unsafe_byte c \<longleftrightarrow> c \<in> {CHR 0x09, CHR 0x0D, CHR 0x0A}"

text \<open>\<open>s.partition(c)\<close> without the separator, and \<open>s.rpartition(c)[2]\<close>.\<close>

definition before :: "char \<Rightarrow> string \<Rightarrow> string" where
  "before c s = takeWhile (\<lambda>x. x \<noteq> c) s"

definition after :: "char \<Rightarrow> string \<Rightarrow> string" where
  "after c s = drop 1 (dropWhile (\<lambda>x. x \<noteq> c) s)"

definition after_last :: "char \<Rightarrow> string \<Rightarrow> string" where
  "after_last c s = rev (takeWhile (\<lambda>x. x \<noteq> c) (rev s))"

definition netloc_end :: "char \<Rightarrow> bool" where
  "netloc_end c \<longleftrightarrow> c \<in> {CHR ''/'', CHR ''?'', CHR ''#''}"

text \<open>The scheme in front, if there is one.\<close>

definition split_scheme :: "string \<Rightarrow> string \<Rightarrow> string \<times> string" where
  "split_scheme scheme u =
     (if CHR '':'' \<in> set u \<and> before (CHR '':'') u \<noteq> [] \<and> alpha (hd u) \<and> list_all scheme_char (before (CHR '':'') u)
      then (lower (before (CHR '':'') u), after (CHR '':'') u) else (scheme, u))"

text \<open>\<open>_splitparams\<close>: the first semicolon after the last slash.\<close>

definition split_params :: "string \<Rightarrow> string \<times> string" where
  "split_params u =
     (let d = take (length u - length (after_last (CHR ''/'') u)) u; l = after_last (CHR ''/'') u
      in (d @ before (CHR '';'') l, after (CHR '';'') l))"

definition urlparse :: "string \<Rightarrow> string \<Rightarrow> url result" where
  "urlparse u scheme =
     (let u1 = filter (\<lambda>c. \<not> unsafe_byte c) (dropWhile control_or_space u) in
      case split_scheme scheme u1 of (sch, u2) \<Rightarrow>
        (let has = prefix ''//'' u2;
             nl = (if has then takeWhile (\<lambda>c. \<not> netloc_end c) (drop 2 u2) else []);
             u3 = (if has then dropWhile (\<lambda>c. \<not> netloc_end c) (drop 2 u2) else u2)
         in if (CHR ''['' \<in> set nl) \<noteq> (CHR '']'' \<in> set nl) then Inl ValueError
            else (let frag = after (CHR ''#'') u3; u4 = before (CHR ''#'') u3;
                      q = after (CHR ''?'') u4; p = before (CHR ''?'') u4;
                      pp = (if sch \<in> set uses_params then split_params p else (p, []))
                  in Inr \<lparr>u_scheme = sch, u_netloc = nl, u_path = fst pp, u_params = snd pp, u_query = q, u_fragment = frag\<rparr>)))"

text \<open>The property \<open>hostname\<close>: \<open>None\<close> when it is empty.\<close>

definition host_of_netloc :: "string \<Rightarrow> string option" where
  "host_of_netloc nl =
     (let hi = after_last (CHR ''@'') nl;
          h = (if CHR ''['' \<in> set hi then before (CHR '']'') (after (CHR ''['') hi) else before (CHR '':'') hi)
      in if h = [] then None
         else Some (lower (before (CHR ''%'') h) @ dropWhile (\<lambda>x. x \<noteq> CHR ''%'') h))"

definition hostname :: "string \<Rightarrow> string option result" where
  "hostname u = (case urlparse u [] of Inl e \<Rightarrow> Inl e | Inr p \<Rightarrow> Inr (host_of_netloc (u_netloc p)))"

definition urlunsplit :: "string \<Rightarrow> string \<Rightarrow> string \<Rightarrow> string \<Rightarrow> string \<Rightarrow> string" where
  "urlunsplit scheme nl path query fragment =
     (let p1 = (if nl \<noteq> [] \<or> scheme \<noteq> [] \<and> scheme \<in> set uses_netloc \<and> \<not> prefix ''//'' path
                then ''//'' @ nl @ (if path \<noteq> [] \<and> hd path \<noteq> CHR ''/'' then CHR ''/'' # path else path) else path)
      in (if scheme \<noteq> [] then scheme @ '':'' else []) @ p1
         @ (if query \<noteq> [] then CHR ''?'' # query else []) @ (if fragment \<noteq> [] then CHR ''#'' # fragment else []))"

definition urlunparse :: "string \<Rightarrow> string \<Rightarrow> string \<Rightarrow> string \<Rightarrow> string \<Rightarrow> string \<Rightarrow> string" where
  "urlunparse scheme nl path params query fragment =
     urlunsplit scheme nl (if params \<noteq> [] then path @ CHR '';'' # params else path) query fragment"

text \<open>The segments of a path, and their resolution.\<close>

fun segments :: "string \<Rightarrow> string list" where
  "segments [] = [[]]"
| "segments (c # s) =
     (if c = CHR ''/'' then [] # segments s
      else (case segments s of [] \<Rightarrow> [[c]] | y # ys \<Rightarrow> (c # y) # ys))"

fun resolve :: "string list \<Rightarrow> string list \<Rightarrow> string list" where
  "resolve done [] = done"
| "resolve done (seg # r) =
     (if seg = ''..'' then resolve (butlast done) r
      else if seg = ''.'' then resolve done r
      else resolve (done @ [seg]) r)"

definition join_path :: "string \<Rightarrow> string \<Rightarrow> string" where
  "join_path bpath path =
     (let bs = segments bpath;
          base = (if last bs \<noteq> [] then butlast bs else bs);
          all = base @ segments path;
          segs = (if prefix ''/'' path then segments path
                  else if length all \<ge> 2 then [hd all] @ filter (\<lambda>s. s \<noteq> []) (butlast (tl all)) @ [last all] else all);
          res = resolve [] segs;
          res1 = (if last segs \<in> {''.'', ''..''} then res @ [[]] else res);
          j = join ''/'' res1
      in if j = [] then ''/'' else j)"

definition urljoin :: "string \<Rightarrow> string \<Rightarrow> string result" where
  "urljoin base u =
     (if base = [] then Inr u
      else if u = [] then Inr base
      else case urlparse base [] of Inl e \<Rightarrow> Inl e
      | Inr b \<Rightarrow> (case urlparse u (u_scheme b) of Inl e \<Rightarrow> Inl e
        | Inr r \<Rightarrow>
           (if u_scheme r \<noteq> u_scheme b \<or> u_scheme r \<notin> set uses_relative then Inr u
            else if u_scheme r \<in> set uses_netloc \<and> u_netloc r \<noteq> [] then
              Inr (urlunparse (u_scheme r) (u_netloc r) (u_path r) (u_params r) (u_query r) (u_fragment r))
            else (let nl = (if u_scheme r \<in> set uses_netloc then u_netloc b else u_netloc r) in
              if u_path r = [] \<and> u_params r = [] then
                Inr (urlunparse (u_scheme r) nl (u_path b) (u_params b) (if u_query r = [] then u_query b else u_query r) (u_fragment r))
              else Inr (urlunparse (u_scheme r) nl (join_path (u_path b) (u_path r)) (u_params r) (u_query r) (u_fragment r))))))"

subsection \<open>What a join does to the host\<close>

lemma before_append: "c \<notin> set a \<Longrightarrow> before c (a @ c # r) = a"
  by (simp add: before_def takeWhile_append)

lemma after_append: "c \<notin> set a \<Longrightarrow> after c (a @ c # r) = r"
  by (simp add: after_def dropWhile_append)

text \<open>The netloc that parsing gives has no delimiter and none of the characters that are removed.\<close>

lemma urlparse_netloc:
  assumes "urlparse u sch = Inr p"
  shows "list_all (\<lambda>c. \<not> netloc_end c \<and> \<not> unsafe_byte c) (u_netloc p)"
    "(CHR ''['' \<in> set (u_netloc p)) = (CHR '']'' \<in> set (u_netloc p))"
proof -
  define u1 where "u1 = filter (\<lambda>c. \<not> unsafe_byte c) (dropWhile control_or_space u)"
  obtain s2 u2 where s: "split_scheme sch u1 = (s2, u2)" by fastforce
  have sub: "set u2 \<subseteq> set u1"
    using s unfolding split_scheme_def after_def by (auto split: if_splits dest: in_set_dropD set_dropWhileD)
  then have safe: "\<forall>c\<in>set u2. \<not> unsafe_byte c" unfolding u1_def by auto
  let ?nl = "if prefix ''//'' u2 then takeWhile (\<lambda>c. \<not> netloc_end c) (drop 2 u2) else []"
  have p: "u_netloc p = ?nl" "(CHR ''['' \<in> set ?nl) = (CHR '']'' \<in> set ?nl)"
    using assms s unfolding urlparse_def u1_def [symmetric] Let_def by (auto split: if_splits)
  have "list_all (\<lambda>c. \<not> netloc_end c \<and> \<not> unsafe_byte c) ?nl"
    using safe by (auto simp: list_all_iff dest: set_takeWhileD in_set_dropD)
  then show "list_all (\<lambda>c. \<not> netloc_end c \<and> \<not> unsafe_byte c) (u_netloc p)" unfolding p(1) .
  show "(CHR ''['' \<in> set (u_netloc p)) = (CHR '']'' \<in> set (u_netloc p))" unfolding p(1) by (rule p(2))
qed

text \<open>Parsing an unparsed URL of the web finds the same netloc again.\<close>

definition web :: "string \<Rightarrow> bool" where
  "web s \<longleftrightarrow> s = ''http'' \<or> s = ''https''"

lemma takeWhile_stop: "list_all P a \<Longrightarrow> r = [] \<or> \<not> P (hd r) \<Longrightarrow> takeWhile P (a @ r) = a"
  by (induction a) (cases r; auto)+

lemma urlparse_unparsed:
  assumes "web s" "list_all (\<lambda>c. \<not> netloc_end c \<and> \<not> unsafe_byte c) nl"
    and "(CHR ''['' \<in> set nl) = (CHR '']'' \<in> set nl)" "tail = [] \<or> netloc_end (hd tail)"
  shows "\<exists>p. urlparse (s @ ''://'' @ nl @ tail) sch = Inr p \<and> u_netloc p = nl"
proof -
  let ?t = "filter (\<lambda>c. \<not> unsafe_byte c) tail"
  have s: "list_all scheme_char s" "alpha (hd s)" "s \<noteq> []" "CHR '':'' \<notin> set s" "lower s = s" "list_all (\<lambda>c. \<not> unsafe_byte c) s"
      "\<not> control_or_space (hd s)"
    using assms(1) by (auto simp: web_def scheme_char_def alpha_def lower_def lower_char_def unsafe_byte_def control_or_space_def)
  have d: "dropWhile control_or_space (s @ ''://'' @ nl @ tail) = s @ ''://'' @ nl @ tail"
    using s(3,7) by (cases s) auto
  have nl: "filter (\<lambda>c. \<not> unsafe_byte c) nl = nl" "filter (\<lambda>c. \<not> unsafe_byte c) s = s"
    using assms(2) s(6) by (auto simp: list_all_iff intro!: filter_True)
  have t: "?t = [] \<or> netloc_end (hd ?t)"
    using assms(4) by (cases tail) (auto simp: netloc_end_def unsafe_byte_def)
  have u1: "filter (\<lambda>c. \<not> unsafe_byte c) (s @ ''://'' @ nl @ tail) = s @ CHR '':'' # ''//'' @ nl @ ?t"
    by (simp add: nl) (simp add: unsafe_byte_def)
  have sp: "split_scheme sch (s @ CHR '':'' # ''//'' @ nl @ ?t) = (s, ''//'' @ nl @ ?t)"
    using s by (simp add: split_scheme_def before_append after_append) 
  have tw: "takeWhile (\<lambda>c. \<not> netloc_end c) (nl @ ?t) = nl"
    using assms(2) t by (intro takeWhile_stop) (auto simp: list_all_iff)
  show ?thesis
    unfolding urlparse_def d u1 sp prod.case Let_def using assms(3) tw by simp
qed


lemma urlunsplit_web:
  assumes "web s" "nl \<noteq> []"
  shows "\<exists>tail. urlunsplit s nl p q f = s @ ''://'' @ nl @ tail \<and> (tail = [] \<or> netloc_end (hd tail))"
proof -
  let ?tail = "(if p \<noteq> [] \<and> hd p \<noteq> CHR ''/'' then CHR ''/'' # p else p)
     @ (if q \<noteq> [] then CHR ''?'' # q else []) @ (if f \<noteq> [] then CHR ''#'' # f else [])"
  have "s \<noteq> []" using assms(1) by (auto simp: web_def)
  then have "urlunsplit s nl p q f = s @ ''://'' @ nl @ ?tail"
    using assms(2) by (simp add: urlunsplit_def Let_def)
  moreover have "?tail = [] \<or> netloc_end (hd ?tail)"
    by (cases p) (auto simp: netloc_end_def)
  ultimately show ?thesis by blast
qed

lemma host_unparsed:
  assumes "web s" "nl \<noteq> []" "list_all (\<lambda>c. \<not> netloc_end c \<and> \<not> unsafe_byte c) nl"
    and "(CHR ''['' \<in> set nl) = (CHR '']'' \<in> set nl)"
  shows "hostname (urlunparse s nl p pa q f) = Inr (host_of_netloc nl)"
proof -
  obtain tail where t: "urlunparse s nl p pa q f = s @ ''://'' @ nl @ tail" "tail = [] \<or> netloc_end (hd tail)"
    using urlunsplit_web [OF assms(1,2)] unfolding urlunparse_def by metis
  from urlparse_unparsed [OF assms(1,3,4) t(2), of "[]"] obtain r where
    "urlparse (s @ ''://'' @ nl @ tail) [] = Inr r" "u_netloc r = nl" by blast
  then show ?thesis unfolding t(1) hostname_def by simp
qed

text \<open>A reference without a host of its own stays on the host it is joined to.\<close>

lemma join_same_host:
  assumes "urlparse base [] = Inr b" "web (u_scheme b)" "u_netloc b \<noteq> []"
    and "urlparse u (u_scheme b) = Inr r" "u_scheme r = u_scheme b" "u_netloc r = []"
  shows "\<exists>j. urljoin base u = Inr j \<and> hostname j = hostname base"
proof (cases "u = []")
  case True
  then show ?thesis by (simp add: urljoin_def)
next
  case False
  have "base \<noteq> []"
  proof
    assume "base = []"
    with assms(1) have "u_netloc b = []" by (auto simp: urlparse_def split_scheme_def Let_def)
    with assms(3) show False by simp
  qed
  moreover have "u_scheme b \<in> set uses_relative" "u_scheme b \<in> set uses_netloc"
    using assms(2) by (auto simp: web_def uses_relative_def uses_netloc_def)
  ultimately obtain p pa q f where "urljoin base u = Inr (urlunparse (u_scheme b) (u_netloc b) p pa q f)"
    using assms False by (cases "u_path r = [] \<and> u_params r = []") (simp_all add: urljoin_def Let_def)
  moreover have "hostname base = Inr (host_of_netloc (u_netloc b))" using assms(1) by (simp add: hostname_def)
  ultimately show ?thesis
    using host_unparsed [OF assms(2,3) urlparse_netloc [OF assms(1)]] by simp
qed

text \<open>A path from the root.\<close>

lemma join_root_path:
  assumes "urlparse base [] = Inr b" "web (u_scheme b)" "u_netloc b \<noteq> []"
    and "u = CHR ''/'' # c # p" "c \<noteq> CHR ''/''" "list_all (\<lambda>c. \<not> unsafe_byte c \<and> c \<noteq> CHR '':'') (c # p)"
  shows "\<exists>j. urljoin base u = Inr j \<and> hostname j = hostname base"
proof -
  have "filter (\<lambda>c. \<not> unsafe_byte c) u = u"
    using assms(4,6) by (auto simp: list_all_iff unsafe_byte_def intro!: filter_True)
  moreover have "dropWhile control_or_space u = u" by (simp add: assms(4) control_or_space_def)
  moreover have "split_scheme (u_scheme b) u = (u_scheme b, u)" by (simp add: split_scheme_def assms(4) before_def alpha_def)
  moreover have "\<not> prefix ''//'' u" using assms(4,5) by simp
  ultimately obtain r where "urlparse u (u_scheme b) = Inr r" "u_scheme r = u_scheme b" "u_netloc r = []"
    by (auto simp: urlparse_def Let_def)
  from join_same_host [OF assms(1-3) this] show ?thesis .
qed

subsection \<open>Percent encoding\<close>

text \<open>\<open>quote_plus\<close>: the UTF-8 bytes of a text (of code points up to U+00FF), the unreserved ones as they are.\<close>

definition unreserved :: "char \<Rightarrow> bool" where
  "unreserved c \<longleftrightarrow> alpha c \<or> (48 \<le> (of_char c :: nat) \<and> (of_char c :: nat) \<le> 57)
     \<or> c \<in> {CHR ''_'', CHR ''.'', CHR ''-'', CHR ''~''}"

definition hex_digit :: "nat \<Rightarrow> char" where
  "hex_digit n = (if n < 10 then char_of (48 + n) else char_of (55 + n))"

definition quote_byte :: "char \<Rightarrow> string" where
  "quote_byte c =
     (if unreserved c then [c] else if c = CHR '' '' then ''+''
      else [CHR ''%'', hex_digit (of_char c div 16), hex_digit (of_char c mod 16)])"

definition quote_plus :: "string \<Rightarrow> string" where
  "quote_plus s = concat (map quote_byte (utf8 s))"

text \<open>\<open>unquote(s.replace('+', ' '))\<close>, a text standing for its UTF-8 bytes.\<close>

definition hex_value :: "char \<Rightarrow> nat" where
  "hex_value c = (let n = (of_char c :: nat) in if n < 58 then n - 48 else if n < 71 then n - 55 else n - 87)"

definition is_hex :: "char \<Rightarrow> bool" where
  "is_hex c = (let n = (of_char c :: nat) in (48 \<le> n \<and> n \<le> 57) \<or> (65 \<le> n \<and> n \<le> 70) \<or> (97 \<le> n \<and> n \<le> 102))"

fun unquote_plus :: "string \<Rightarrow> string" where
  "unquote_plus (c # d # e # s) =
     (if c = CHR ''%'' \<and> is_hex d \<and> is_hex e then char_of (16 * hex_value d + hex_value e) # unquote_plus s
      else (if c = CHR ''+'' then CHR '' '' else c) # unquote_plus (d # e # s))"
| "unquote_plus s = map (\<lambda>c. if c = CHR ''+'' then CHR '' '' else c) s"

lemma hex_value_digit: "n < 16 \<Longrightarrow> hex_value (hex_digit n) = n"
  by (auto simp: hex_value_def hex_digit_def of_char_of)

lemma is_hex_digit: "n < 16 \<Longrightarrow> is_hex (hex_digit n)"
  by (auto simp: is_hex_def hex_digit_def of_char_of)

lemma unquote_plain:
  "c \<noteq> CHR ''%'' \<Longrightarrow> unquote_plus (c # s) = (if c = CHR ''+'' then CHR '' '' else c) # unquote_plus s"
  by (cases s rule: unquote_plus.cases) auto

lemma unquote_byte: "unquote_plus (quote_byte c @ s) = c # unquote_plus s"
proof -
  have n: "(of_char c :: nat) div 16 < 16" by (intro less_mult_imp_div_less) simp
  have u: "unreserved c \<Longrightarrow> c \<noteq> CHR ''%'' \<and> c \<noteq> CHR ''+''" by (auto simp: unreserved_def alpha_def)
  have "16 * hex_value (hex_digit (of_char c div 16)) + hex_value (hex_digit (of_char c mod 16)) = of_char c"
    using n by (simp add: hex_value_digit less_mult_imp_div_less)
  then show ?thesis using u n by (auto simp: quote_byte_def unquote_plain is_hex_digit)
qed

lemma unquote_quote: "unquote_plus (quote_plus s) = utf8 s"
proof -
  have "unquote_plus (concat (map quote_byte b)) = b" for b
    by (induction b) (simp_all add: unquote_byte)
  then show ?thesis by (simp add: quote_plus_def)
qed

text \<open>\<open>parse_qs\<close>: the pairs in order; a pair without a value is dropped.\<close>

fun split_on :: "char \<Rightarrow> string \<Rightarrow> string list" where
  "split_on sep [] = [[]]"
| "split_on sep (c # s) =
     (if c = sep then [] # split_on sep s
      else (case split_on sep s of [] \<Rightarrow> [[c]] | y # ys \<Rightarrow> (c # y) # ys))"

definition parse_qs :: "string \<Rightarrow> (string \<times> string) list" where
  "parse_qs qs =
     map (\<lambda>nv. (unquote_plus (before (CHR ''='') nv), unquote_plus (after (CHR ''='') nv)))
       (filter (\<lambda>nv. CHR ''='' \<in> set nv \<and> after (CHR ''='') nv \<noteq> []) (split_on (CHR ''&'') qs))"

text \<open>Nothing in the encoded text has a meaning in a URL.\<close>

definition query_safe :: "char \<Rightarrow> bool" where
  "query_safe c \<longleftrightarrow> c \<notin> {CHR ''&'', CHR ''#'', CHR ''='', CHR ''?'', CHR ''/'', CHR '' '', CHR '':'', CHR '';''} \<and> \<not> unsafe_byte c"

lemma hex_digit_safe: "n < 16 \<Longrightarrow> query_safe (hex_digit n)"
proof -
  assume "n < 16"
  then have "n \<in> set [0..<16]" by simp
  moreover have "\<forall>n\<in>set [0..<16]. query_safe (hex_digit n)"
    by (simp add: upt_rec query_safe_def hex_digit_def unsafe_byte_def char_of_def)
  ultimately show ?thesis by blast
qed

lemma quote_plus_safe: "list_all query_safe (quote_plus s)"
proof -
  have "list_all query_safe (quote_byte c)" for c
  proof -
    have "unreserved c \<Longrightarrow> query_safe c"
      by (auto simp: unreserved_def alpha_def query_safe_def unsafe_byte_def)
    moreover have "query_safe CHR ''%''" "query_safe CHR ''+''" by (simp_all add: query_safe_def unsafe_byte_def)
    moreover have "(of_char c :: nat) div 16 < 16" by (intro less_mult_imp_div_less) simp
    ultimately show ?thesis by (simp add: quote_byte_def hex_digit_safe)
  qed
  then show ?thesis by (auto simp: quote_plus_def list_all_iff)
qed

lemma before_none: "c \<notin> set s \<Longrightarrow> before c s = s" "c \<notin> set s \<Longrightarrow> after c s = []"
  by (induction s) (auto simp: before_def after_def)

text \<open>Parsing a URL put together from its parts.\<close>

lemma urlparse_assembled:
  assumes "web s" "list_all (\<lambda>c. \<not> netloc_end c \<and> \<not> unsafe_byte c) nl" "CHR ''['' \<notin> set nl" "CHR '']'' \<notin> set nl"
    and "p = CHR ''/'' # p'" "list_all (\<lambda>c. c \<noteq> CHR ''#'' \<and> c \<noteq> CHR ''?'' \<and> \<not> unsafe_byte c) p" "split_params p = (p, [])"
    and "list_all (\<lambda>c. c \<noteq> CHR ''#'' \<and> \<not> unsafe_byte c) q"
  shows "urlparse (s @ ''://'' @ nl @ p @ CHR ''?'' # q) [] =
    Inr \<lparr>u_scheme = s, u_netloc = nl, u_path = p, u_params = [], u_query = q, u_fragment = []\<rparr>"
proof -
  have s: "list_all scheme_char s" "alpha (hd s)" "s \<noteq> []" "CHR '':'' \<notin> set s" "lower s = s" "list_all (\<lambda>c. \<not> unsafe_byte c) s"
      "\<not> control_or_space (hd s)" "s \<in> set uses_params"
    using assms(1) by (auto simp: web_def scheme_char_def alpha_def lower_def lower_char_def unsafe_byte_def control_or_space_def uses_params_def)
  have d: "dropWhile control_or_space (s @ ''://'' @ nl @ p @ CHR ''?'' # q) = s @ ''://'' @ nl @ p @ CHR ''?'' # q"
    using s(3,7) by (cases s) auto
  have f: "filter (\<lambda>c. \<not> unsafe_byte c) x = x" if "list_all (\<lambda>c. \<not> unsafe_byte c) x" for x
    using that by (auto simp: list_all_iff intro: filter_True)
  have safe: "list_all (\<lambda>c. \<not> unsafe_byte c) nl" "list_all (\<lambda>c. \<not> unsafe_byte c) p" "list_all (\<lambda>c. \<not> unsafe_byte c) q"
    using assms(2,6,8) by (auto simp: list_all_iff)
  have u1: "filter (\<lambda>c. \<not> unsafe_byte c) (s @ ''://'' @ nl @ p @ CHR ''?'' # q) = s @ CHR '':'' # ''//'' @ nl @ p @ CHR ''?'' # q"
    by (simp add: f s(6) safe) (simp add: unsafe_byte_def)
  have sp: "split_scheme [] (s @ CHR '':'' # x) = (s, x)" for x
    using s by (simp add: split_scheme_def before_append after_append)
  have tw: "takeWhile (\<lambda>c. \<not> netloc_end c) (nl @ p @ x) = nl" for x
    using assms(2,5) by (intro takeWhile_stop) (auto simp: list_all_iff netloc_end_def)
  have dw: "dropWhile (\<lambda>c. \<not> netloc_end c) (nl @ p @ x) = p @ x" for x
    using tw [of x] by (metis append_same_eq same_append_eq takeWhile_dropWhile_id)
  have h: "CHR ''#'' \<notin> set (p @ CHR ''?'' # q)" "CHR ''?'' \<notin> set p" using assms(6,8) by (auto simp: list_all_iff)
  show ?thesis
    unfolding urlparse_def d u1 sp prod.case Let_def
    by (simp add: tw dw before_none [OF h(1)] before_append [OF h(2)] after_append [OF h(2)] s(8) assms(3,4,7))
qed

end
