(* ===== verification/Scan.thy ===== *)
theory Scan
  imports Prelude
begin

text \<open>
  The part of \<open>re\<close> that \<open>vpn/headless.py\<close> uses, and \<open>html.escape\<close>.

  A pattern is a list of items: one character of a class, a repeated class (greedy or lazy, with
  a minimum), an optional character, a group.  \<open>rx_match\<close> gives the matches at the start of a
  text in the order backtracking finds them, each with the texts of the groups and the rest of
  the text; \<open>re.search\<close> and \<open>re.finditer\<close> take the first.  \<open>rx_lang\<close> is the meaning of a
  pattern without any search order, and \<open>rx_match\<close> finds exactly its members.
\<close>

datatype rx = One "char \<Rightarrow> bool" | Many "char \<Rightarrow> bool" nat bool | Maybe "char \<Rightarrow> bool" | Cap "rx list"

text \<open>How often a repeated class may match, in the order of the search.\<close>

definition counts :: "(char \<Rightarrow> bool) \<Rightarrow> nat \<Rightarrow> bool \<Rightarrow> string \<Rightarrow> nat list" where
  "counts P m lazy s = (let ns = [m..<Suc (length (takeWhile P s))] in if lazy then ns else rev ns)"

fun rx_match :: "rx list \<Rightarrow> string \<Rightarrow> (string list \<times> string) list" where
  "rx_match [] s = [([], s)]"
| "rx_match (One P # r) s = (case s of [] \<Rightarrow> [] | c # cs \<Rightarrow> if P c then rx_match r cs else [])"
| "rx_match (Many P m lazy # r) s = concat (map (\<lambda>n. rx_match r (drop n s)) (counts P m lazy s))"
| "rx_match (Maybe P # r) s = (case s of [] \<Rightarrow> [] | c # cs \<Rightarrow> if P c then rx_match r cs else []) @ rx_match r s"
| "rx_match (Cap xs # r) s =
     concat (map (\<lambda>(gs, rest). map (\<lambda>(hs, rest'). (take (length s - length rest) s # gs @ hs, rest')) (rx_match r rest))
       (rx_match xs s))"

text \<open>\<open>re.search\<close>: the first position with a match, its first match.\<close>

fun rx_search :: "rx list \<Rightarrow> string \<Rightarrow> (string list \<times> string) option" where
  "rx_search xs [] = (case rx_match xs [] of [] \<Rightarrow> None | m # ms \<Rightarrow> Some m)"
| "rx_search xs (c # s) = (case rx_match xs (c # s) of [] \<Rightarrow> rx_search xs s | m # ms \<Rightarrow> Some m)"

text \<open>The meaning of a pattern: which prefix it takes off a text, with which groups.\<close>

inductive rx_lang :: "rx list \<Rightarrow> string \<Rightarrow> string list \<Rightarrow> string \<Rightarrow> bool" where
  Nil: "rx_lang [] s [] s"
| One: "P c \<Longrightarrow> rx_lang r s gs t \<Longrightarrow> rx_lang (One P # r) (c # s) gs t"
| Many: "list_all P a \<Longrightarrow> m \<le> length a \<Longrightarrow> rx_lang r s gs t \<Longrightarrow> rx_lang (Many P m lazy # r) (a @ s) gs t"
| Take: "P c \<Longrightarrow> rx_lang r s gs t \<Longrightarrow> rx_lang (Maybe P # r) (c # s) gs t"
| Skip: "rx_lang r s gs t \<Longrightarrow> rx_lang (Maybe P # r) s gs t"
| Cap: "rx_lang xs (a @ s) gs s \<Longrightarrow> rx_lang r s hs t \<Longrightarrow> rx_lang (Cap xs # r) (a @ s) (a # gs @ hs) t"

inductive_cases rx_langE: "rx_lang [] s gs t" "rx_lang (One P # r) s gs t" "rx_lang (Many P m lazy # r) s gs t"
  "rx_lang (Maybe P # r) s gs t" "rx_lang (Cap xs # r) s gs t"

lemma rx_lang_suffix: "rx_lang xs s gs t \<Longrightarrow> suffix t s"
  by (induction rule: rx_lang.induct) (auto intro: suffix_ConsI suffix_appendI)

lemma counts_set: "n \<in> set (counts P m lazy s) \<longleftrightarrow> m \<le> n \<and> n \<le> length (takeWhile P s)"
  by (auto simp: counts_def Let_def)

lemma takeWhile_count: "n \<le> length (takeWhile P s) \<Longrightarrow> list_all P (take n s) \<and> n \<le> length s"
proof -
  assume n: "n \<le> length (takeWhile P s)"
  then have "take n s = take n (takeWhile P s)"
    by (metis length_takeWhile_le order_trans take_append take_all takeWhile_dropWhile_id append_Nil2 diff_is_0_eq' take0)
  moreover have "list_all P (takeWhile P s)" by (auto simp: list_all_iff dest: set_takeWhileD)
  ultimately show ?thesis
    using n length_takeWhile_le [of P s] by (auto simp: list_all_iff dest: in_set_takeD)
qed

lemma count_takeWhile: "list_all P a \<Longrightarrow> length a \<le> length (takeWhile P (a @ s))"
  by (induction a) auto

lemma rx_match_lang: "(gs, t) \<in> set (rx_match xs s) \<longleftrightarrow> rx_lang xs s gs t"
proof (induction xs s arbitrary: gs t rule: rx_match.induct)
  case (1 s)
  show ?case by (auto intro: rx_lang.Nil elim: rx_langE)
next
  case (2 P r s)
  then show ?case by (cases s) (auto intro: rx_lang.One elim: rx_langE)
next
  case (3 P m lazy r s)
  show ?case
  proof
    assume "(gs, t) \<in> set (rx_match (Many P m lazy # r) s)"
    then obtain n where n: "n \<in> set (counts P m lazy s)" "(gs, t) \<in> set (rx_match r (drop n s))" by auto
    with 3 have l: "rx_lang r (drop n s) gs t" by blast
    from n(1) have "list_all P (take n s)" "m \<le> length (take n s)"
      using takeWhile_count [of n P s] by (auto simp: counts_set)
    from rx_lang.Many [OF this l] show "rx_lang (Many P m lazy # r) s gs t" by simp
  next
    assume "rx_lang (Many P m lazy # r) s gs t"
    then obtain a u where a: "list_all P a" "m \<le> length a" "rx_lang r u gs t" "s = a @ u" by (auto elim: rx_langE)
    then have n: "length a \<in> set (counts P m lazy s)" using count_takeWhile [OF a(1)] by (simp add: counts_set)
    have "(gs, t) \<in> set (rx_match r (drop (length a) s))" using 3 [of "length a" gs t] n a(3,4) by simp
    with n show "(gs, t) \<in> set (rx_match (Many P m lazy # r) s)" unfolding a(4) [symmetric]
      by (simp only: rx_match.simps set_concat set_map) blast
  qed
next
  case (4 P r s)
  then show ?case by (cases s) (auto intro: rx_lang.Take rx_lang.Skip elim: rx_langE)
next
  case (5 xs r s)
  show ?case
  proof
    assume "(gs, t) \<in> set (rx_match (Cap xs # r) s)"
    then obtain g u h where m: "(g, u) \<in> set (rx_match xs s)" "(h, t) \<in> set (rx_match r u)"
        "gs = take (length s - length u) s # g @ h" by auto
    with 5 have "rx_lang xs s g u" "rx_lang r u h t" by blast+
    moreover obtain a where "s = a @ u" using rx_lang_suffix [OF calculation(1)] by (auto simp: suffix_def)
    ultimately show "rx_lang (Cap xs # r) s gs t" using m(3) by (auto intro: rx_lang.Cap)
  next
    assume "rx_lang (Cap xs # r) s gs t"
    then obtain a u g h where a: "rx_lang xs s g u" "rx_lang r u h t" "s = a @ u" "gs = a # g @ h" by (auto elim: rx_langE)
    with 5(1) have 1: "(g, u) \<in> set (rx_match xs s)" by blast
    moreover have "(h, t) \<in> set (rx_match r u)" using 5(2) [OF 1 refl] a(2) by blast
    ultimately show "(gs, t) \<in> set (rx_match (Cap xs # r) s)" using a(3,4) by force
  qed
qed

lemma rx_search_lang:
  "rx_search xs s = Some (gs, t) \<Longrightarrow> \<exists>u. suffix u s \<and> rx_lang xs u gs t"
proof (induction xs s rule: rx_search.induct)
  case (1 xs)
  then show ?case using rx_match_lang [of gs t xs "[]"] by (auto split: list.splits)
next
  case (2 xs c s)
  then show ?case
    using rx_match_lang [of gs t xs "c # s"] by (cases "rx_match xs (c # s)") (auto intro: suffix_ConsI)
qed

lemma rx_search_None: "rx_search xs s = None \<longleftrightarrow> (\<forall>u gs t. suffix u s \<longrightarrow> \<not> rx_lang xs u gs t)"
proof (induction xs s rule: rx_search.induct)
  case (1 xs)
  then show ?case using rx_match_lang [of _ _ xs "[]"] by (cases "rx_match xs []") auto
next
  case (2 xs c s)
  then show ?case
    using rx_match_lang [of _ _ xs "c # s"]
    by (cases "rx_match xs (c # s)") (auto simp: suffix_Cons, metis list.set_intros(1) surj_pair)
qed

text \<open>\<open>re.finditer\<close>: the matches one after the other.\<close>

function rx_finditer :: "rx list \<Rightarrow> string \<Rightarrow> string list list" where
  "rx_finditer xs [] = []"
| "rx_finditer xs (c # s) =
     (case rx_match xs (c # s) of
        [] \<Rightarrow> rx_finditer xs s
      | m # ms \<Rightarrow> fst m # rx_finditer xs (if length (snd m) < length (c # s) then snd m else s))"
  by pat_completeness auto
termination by (relation "measure (length \<circ> snd)") auto

subsection \<open>Building patterns\<close>

definition ci :: "char \<Rightarrow> char \<Rightarrow> bool" where
  "ci a c \<longleftrightarrow> lower_char c = lower_char a"

definition word :: "string \<Rightarrow> rx list" where
  "word s = map (\<lambda>a. One (\<lambda>c. c = a)) s"

definition word_ci :: "string \<Rightarrow> rx list" where
  "word_ci s = map (\<lambda>a. One (ci a)) s"

definition quote_char :: "char \<Rightarrow> bool" where
  "quote_char c \<longleftrightarrow> c = CHR 0x22 \<or> c = CHR 0x27"

definition spaces :: rx where
  "spaces = Many str_space 0 False"

subsection \<open>\<open>html.escape\<close>\<close>

definition esc_char :: "char \<Rightarrow> string" where
  "esc_char c =
     (if c = CHR ''&'' then ''&amp;'' else if c = CHR ''<'' then ''&lt;'' else if c = CHR ''>'' then ''&gt;''
      else if c = CHR 0x22 then ''&quot;'' else if c = CHR 0x27 then ''&#x27;'' else [c])"

text \<open>The five replacements one after the other do this to every character.\<close>

definition html_escape :: "string \<Rightarrow> string" where
  "html_escape s =
     replace_all [CHR 0x27] ''&#x27;'' (replace_all [CHR 0x22] ''&quot;'' (replace_all ''>'' ''&gt;'' (replace_all ''<'' ''&lt;''
       (replace_all ''&'' ''&amp;'' s))))"

lemma html_escape_chars: "html_escape s = concat (map esc_char s)"
  unfolding html_escape_def replace_all_single
  by (induction s) (simp_all add: esc_char_def)

lemma html_escape_safe: "c \<in> set (html_escape s) \<Longrightarrow> c \<notin> {CHR ''<'', CHR ''>'', CHR 0x22, CHR 0x27}"
  by (auto simp: html_escape_chars esc_char_def split: if_splits)

end
