(* ===== verification/Headless.thy ===== *)
theory Headless
  imports UrlParse Scan
begin

text \<open>
  \<open>vpn/headless.py\<close>: the state of \<open>HeadlessAuthenticator\<close>, its calls of the libraries, and the
  helpers that all login flows share.

  A method is a function from the session to a result and the session after it, \<open>'a flow\<close>; an
  exception is a value of \<open>fail\<close>, and what was done before it stays done.  Every request is recorded
  in \<open>trace\<close>.  What the program imports is a parameter, the record \<open>lib\<close>: the HTTP session of
  \<open>requests\<close> (the answer to a request depends on all requests before it; redirects are followed
  inside), its cookie jar, \<open>html.unescape\<close>, \<open>json.loads\<close>, \<open>pyotp\<close>, \<open>keyring\<close>, \<open>credentials.totp\<close>.
  What \<open>lxml\<close> makes of a page is part of the reply.  Times are rationals, in seconds.
\<close>

subsection \<open>Errors\<close>

text \<open>One constructor for each \<open>raise HeadlessAuthError\<close>.\<close>

datatype why =
    LoginHost
  | LandedOutside
  | ContentType string
  | NoForms
  | MaxSteps
  | ServerRejected string
  | NeedsBoth
  | GctHost
  | NoPassword
  | UrlPostHost
  | NoSamlForm
  | MicrosoftRejected
  | MfaWithoutTotp
  | InteractiveMfa
  | UnexpectedPage nat
  | StepBudget
  | SamlHost
  | RealmHost
  | NoAuthUrl
  | NotHttps
  | WsTrustHost
  | WsTrustRedirect nat
  | InvalidXml
  | AdfsRejected string
  | LoginSrfHost
  | CallbackTimeout
  | ScriptTimeout
  | ScriptExit int string
  | ScriptEmpty

text \<open>
  \<open>WithHint e\<close> is the \<open>HeadlessAuthError\<close> that repeats \<open>e\<close> with the advice to use a browser,
  \<open>BadCredentials\<close> the \<open>ValueError(msg, 1)\<close> that ends the program.
\<close>

datatype fail = HeadlessAuthError why | WithHint fail | BadCredentials | Raised exc

subsection \<open>Pages and replies\<close>

datatype json = JNull | JBool bool | JNum int | JStr string | JList "json list" | JObj "(string \<times> json) list"

record input_el =
  el_type :: "string option"
  el_placeholder :: "string option"
  el_autocomplete :: "string option"

text \<open>
  A form as \<open>lxml\<close> gives it: \<open>form.action\<close> (already joined with the base of the page),
  \<open>form.method\<close>, \<open>form.fields\<close>, and the first hit of the query for the input of a name, which
  raises on a name with a quote.
\<close>

record form =
  f_action :: "string option"
  f_method :: "string option"
  f_fields :: "(string \<times> string option) list"
  f_input :: "string \<Rightarrow> input_el option result"

text \<open>A page: its forms and the contents of its refresh elements.\<close>

record page =
  p_forms :: "form list"
  p_refresh :: "string list"

text \<open>An XML document: its assertions (serialised) and the texts of its \<open>Reason\<close> and \<open>Text\<close> elements.\<close>

record xml =
  x_assertions :: "string list"
  x_faults :: "string option list"

record reply =
  r_url :: string
  r_status :: nat
  r_ctype :: string
  r_text :: string
  r_page :: "page result"
  r_xml :: "xml option"
  r_json :: "json result"
  r_cookies :: "(string \<times> string) list"

record cookie =
  ck_name :: string
  ck_value :: string
  ck_domain :: "string option"

datatype request =
    Get string "(string \<times> json) list"
  | Post string "(string \<times> json) list"
  | PostJson string json json
  | PostSoap string string

fun target :: "request \<Rightarrow> string" where
  "target (Get u ps) = u"
| "target (Post u d) = u"
| "target (PostJson u p c) = u"
| "target (PostSoap u b) = u"

text \<open>
  What a request brings: the reply or an error, the cookies afterwards, and for each response on
  the way the seconds it took and its \<open>Date\<close> header (\<open>None\<close>: none, \<open>Some None\<close>: unreadable).
\<close>

record answer =
  a_reply :: "reply result"
  a_jar :: "cookie list"
  a_hops :: "(rat \<times> rat option option) list"

record lib =
  serve :: "request list \<Rightarrow> answer"
  set_cookie :: "cookie \<Rightarrow> cookie list \<Rightarrow> cookie list result"
  unescape :: "string \<Rightarrow> string"
  loads :: "string \<Rightarrow> json option"
  totp_at :: "string \<Rightarrow> int \<Rightarrow> string result"
  keyring :: "string \<Rightarrow> string option result"
  local_totp :: "rat \<Rightarrow> string option"
  uuid4 :: "request list \<Rightarrow> string"
  appdata :: bool
  unlink_works :: bool

record creds =
  c_username :: string
  c_password :: string
  c_secret :: "string option"

text \<open>
  The state.  \<open>cooldown_file\<close>: \<open>None\<close> when there is no such file, \<open>Some None\<close> when it holds no
  number.  \<open>probe_log\<close>: the lines added to the probe log, \<open>None\<close> while the file cannot be opened.
\<close>

record sess =
  allowed :: "string list option"
  offset :: rat
  rejected :: bool
  jar :: "cookie list"
  trace :: "request list"
  clock :: rat
  cooldown_file :: "rat option option"
  probe_log :: "(string list \<times> string) list option"

type_synonym 'a flow = "sess \<Rightarrow> (fail + 'a) \<times> sess"

subsection \<open>Sequencing\<close>

definition ret :: "'a \<Rightarrow> 'a flow" where
  "ret x s = (Inr x, s)"

definition throw :: "fail \<Rightarrow> 'a flow" where
  "throw e s = (Inl e, s)"

definition bind_flow :: "'a flow \<Rightarrow> ('a \<Rightarrow> 'b flow) \<Rightarrow> 'b flow" where
  "bind_flow m f s = (case m s of (Inl e, s1) \<Rightarrow> (Inl e, s1) | (Inr x, s1) \<Rightarrow> f x s1)"

definition lift_py :: "'a result \<Rightarrow> 'a flow" where
  "lift_py r = (case r of Inl e \<Rightarrow> throw (Raised e) | Inr x \<Rightarrow> ret x)"

definition ask :: "(sess \<Rightarrow> 'a) \<Rightarrow> 'a flow" where
  "ask f s = (Inr (f s), s)"

definition change :: "(sess \<Rightarrow> sess) \<Rightarrow> unit flow" where
  "change f s = (Inr (), f s)"

definition guard :: "bool \<Rightarrow> unit flow \<Rightarrow> unit flow" where
  "guard b m = (if b then ret () else m)"

named_theorems flow_simps \<open>evaluation of the sequencing operations\<close>

lemmas flow_defs [flow_simps] = ret_def throw_def bind_flow_def lift_py_def ask_def change_def guard_def

lemma bind_flow_ret [simp]: "bind_flow (ret x) f = f x"
  by (simp add: fun_eq_iff flow_simps)

lemma bind_flow_throw [simp]: "bind_flow (throw e) f = throw e"
  by (simp add: fun_eq_iff flow_simps)

lemma bind_flow_assoc: "bind_flow (bind_flow m f) g = bind_flow m (\<lambda>x. bind_flow (f x) g)"
  by (auto simp: fun_eq_iff flow_simps split: prod.split sum.split)

lemma bind_flow_Inr:
  "bind_flow m f s = (Inr y, t) \<longleftrightarrow> (\<exists>x s1. m s = (Inr x, s1) \<and> f x s1 = (Inr y, t))"
  by (auto simp: bind_flow_def split: prod.split sum.split)

subsection \<open>Triples\<close>

text \<open>
  \<open>triple P m Q\<close>: from a session with \<open>P\<close>, \<open>m\<close> ends (with a value or an error) so that \<open>Q\<close> holds of
  the result and the session.
\<close>

definition triple :: "(sess \<Rightarrow> bool) \<Rightarrow> 'a flow \<Rightarrow> (fail + 'a \<Rightarrow> sess \<Rightarrow> bool) \<Rightarrow> bool" where
  "triple P m Q \<longleftrightarrow> (\<forall>s. P s \<longrightarrow> Q (fst (m s)) (snd (m s)))"

definition keeps :: "(sess \<Rightarrow> bool) \<Rightarrow> 'a flow \<Rightarrow> bool" where
  "keeps I m \<longleftrightarrow> triple I m (\<lambda>r. I)"

named_theorems keeps_intro \<open>composition of invariance facts\<close>

lemma keepsD: "keeps I m \<Longrightarrow> I s \<Longrightarrow> m s = (r, t) \<Longrightarrow> I t"
  by (metis keeps_def triple_def snd_conv)

lemma keepsI: "(\<And>s. I s \<Longrightarrow> I (snd (m s))) \<Longrightarrow> keeps I m"
  by (simp add: keeps_def triple_def)

lemma keeps_snd: "keeps I m \<Longrightarrow> I s \<Longrightarrow> I (snd (m s))"
  by (simp add: keeps_def triple_def)

lemma keeps_bind [keeps_intro]: "keeps I m \<Longrightarrow> (\<And>x. keeps I (f x)) \<Longrightarrow> keeps I (bind_flow m f)"
  by (rule keepsI) (auto simp: bind_flow_def split: prod.split sum.split intro: keeps_snd dest: keepsD)

lemma keeps_basic [keeps_intro, simp]:
  "keeps I (ret x)" "keeps I (throw e)" "keeps I (lift_py p)" "keeps I (ask f)"
  by (auto simp: keeps_def triple_def flow_simps split: sum.split)

lemma keeps_guard [keeps_intro]: "(\<not> b \<Longrightarrow> keeps I m) \<Longrightarrow> keeps I (guard b m)"
  by (simp add: guard_def)

lemma keeps_if [keeps_intro]: "(b \<Longrightarrow> keeps I m) \<Longrightarrow> (\<not> b \<Longrightarrow> keeps I n) \<Longrightarrow> keeps I (if b then m else n)"
  by simp

lemma keeps_option [keeps_intro]:
  "(x = None \<Longrightarrow> keeps I m) \<Longrightarrow> (\<And>y. x = Some y \<Longrightarrow> keeps I (f y)) \<Longrightarrow> keeps I (case x of None \<Rightarrow> m | Some y \<Rightarrow> f y)"
  by (cases x) simp_all

lemma keeps_sum [keeps_intro]:
  "(\<And>e. x = Inl e \<Longrightarrow> keeps I (g e)) \<Longrightarrow> (\<And>y. x = Inr y \<Longrightarrow> keeps I (f y)) \<Longrightarrow> keeps I (case x of Inl e \<Rightarrow> g e | Inr y \<Rightarrow> f y)"
  by (cases x) simp_all

lemma keeps_prod [keeps_intro]: "(\<And>a b. x = (a, b) \<Longrightarrow> keeps I (f a b)) \<Longrightarrow> keeps I (case x of (a, b) \<Rightarrow> f a b)"
  by (cases x) simp_all

lemma keeps_change: "(\<And>s. I s \<Longrightarrow> I (f s)) \<Longrightarrow> keeps I (change f)"
  by (simp add: keeps_def triple_def change_def)

lemma keeps_bind_ask: "(\<And>s. I s \<Longrightarrow> I (snd (h (f s) s))) \<Longrightarrow> keeps I (bind_flow (ask f) h)"
  by (rule keepsI) (simp add: flow_simps)

subsection \<open>Requests and the clock of the server\<close>

text \<open>\<open>_record_server_clock\<close>, the hook that runs on every response; the local clock goes on meanwhile.\<close>

definition record_server_clock :: "rat \<times> rat option option \<Rightarrow> sess \<Rightarrow> sess" where
  "record_server_clock hop s =
     (case hop of (dt, date) \<Rightarrow>
        (let s1 = s\<lparr>clock := clock s + dt\<rparr> in
         case date of
           Some (Some server_now) \<Rightarrow> s1\<lparr>offset := server_now - clock s1\<rparr>
         | _ \<Rightarrow> s1))"

definition send :: "lib \<Rightarrow> request \<Rightarrow> reply flow" where
  "send l q s =
     (let ans = serve l (trace s @ [q]) in
      ((case a_reply ans of Inl e \<Rightarrow> Inl (Raised e) | Inr resp \<Rightarrow> Inr resp),
       fold record_server_clock (a_hops ans) (s\<lparr>trace := trace s @ [q], jar := a_jar ans\<rparr>)))"

definition raise_for_status :: "reply \<Rightarrow> unit flow" where
  "raise_for_status resp = guard (\<not> (400 \<le> r_status resp \<and> r_status resp < 600)) (throw (Raised OtherException))"

text \<open>\<open>resp = self.session.get(...)\<close> or \<open>post\<close>, then \<open>resp.raise_for_status()\<close>.\<close>

definition fetch :: "lib \<Rightarrow> request \<Rightarrow> reply flow" where
  "fetch l q = bind_flow (send l q) (\<lambda>resp. bind_flow (raise_for_status resp) (\<lambda>_. ret resp))"

lemma record_server_clock_same [simp]:
  "allowed (record_server_clock h s) = allowed s" "rejected (record_server_clock h s) = rejected s"
  "jar (record_server_clock h s) = jar s" "trace (record_server_clock h s) = trace s"
  "cooldown_file (record_server_clock h s) = cooldown_file s"
  by (simp_all add: record_server_clock_def Let_def split: prod.split option.split)

lemma fold_clock_same [simp]:
  "allowed (fold record_server_clock hs s) = allowed s" "rejected (fold record_server_clock hs s) = rejected s"
  "jar (fold record_server_clock hs s) = jar s" "trace (fold record_server_clock hs s) = trace s"
  "cooldown_file (fold record_server_clock hs s) = cooldown_file s"
  by (induction hs arbitrary: s) simp_all

lemma send_trace [simp]:
  "trace (snd (send l q s)) = trace s @ [q]" "allowed (snd (send l q s)) = allowed s"
  "rejected (snd (send l q s)) = rejected s"
  by (simp_all add: send_def Let_def)

lemma keeps_fetch:
  assumes "\<And>s. I s \<Longrightarrow> I (snd (send l q s))"
  shows "keeps I (fetch l q)"
  unfolding fetch_def raise_for_status_def
  by (intro keeps_intro) (use assms in \<open>auto intro: keepsI\<close>)

subsection \<open>Hosts\<close>

definition ENTRA_HOSTS :: "string list" where
  "ENTRA_HOSTS =
     [''login.microsoftonline.com'', ''login.microsoftonline.us'', ''login.microsoftonline.de'',
      ''login.partner.microsoftonline.cn'', ''login.live.com'', ''login.windows.net'']"

text \<open>The host of a URL in lower case, empty when there is none or the URL does not parse.\<close>

definition host_of :: "string \<Rightarrow> string" where
  "host_of u = (case hostname u of Inr (Some h) \<Rightarrow> lower h | _ \<Rightarrow> [])"

definition is_ms_entra_idp :: "string \<Rightarrow> bool" where
  "is_ms_entra_idp login_url =
     (let host = host_of login_url in list_ex (\<lambda>h. host = h \<or> suffix (''.'' @ h) host) ENTRA_HOSTS)"

text \<open>One entry of the whitelist: a host, or \<open>*.suffix\<close>.\<close>

definition entry_matches :: "string \<Rightarrow> string \<Rightarrow> bool" where
  "entry_matches entry0 host =
     (let entry = lower (strip entry0) in
      entry \<noteq> [] \<and> (entry = host \<or> prefix ''*.'' entry \<and> suffix (drop 1 entry) host))"

definition host_allowed :: "string list option \<Rightarrow> string \<Rightarrow> bool" where
  "host_allowed al url =
     (case al of
        None \<Rightarrow> True
      | Some entries \<Rightarrow>
          (let host = host_of url in
           if host = [] then False else list_ex (\<lambda>entry. entry_matches entry host) entries))"

text \<open>
  \<open>if not self._host_allowed(url): raise HeadlessAuthError(...)\<close>.  The message names the host, so a
  URL that does not parse raises its \<open>ValueError\<close> again.
\<close>

definition require_host :: "why \<Rightarrow> string \<Rightarrow> unit flow" where
  "require_host w url =
     bind_flow (ask allowed) (\<lambda>al.
       guard (host_allowed al url) (case hostname url of Inl e \<Rightarrow> throw (Raised e) | Inr h \<Rightarrow> throw (HeadlessAuthError w)))"

text \<open>The whitelist grows by the hosts of the gateway and of the login page.\<close>

definition add_host :: "string \<Rightarrow> string list \<Rightarrow> string list" where
  "add_host host al = (if host \<noteq> [] \<and> lower host \<notin> set (map lower al) then al @ [host] else al)"

definition extend_allowed :: "string \<Rightarrow> unit flow" where
  "extend_allowed url =
     bind_flow (ask allowed) (\<lambda>al.
       case al of
         None \<Rightarrow> ret ()
       | Some entries \<Rightarrow>
           bind_flow (lift_py (hostname url)) (\<lambda>h.
             change (\<lambda>s. s\<lparr>allowed := Some (add_host (case h of None \<Rightarrow> [] | Some x \<Rightarrow> x) entries)\<rparr>)))"

lemma require_host_ok:
  "fst (require_host w url s) = Inr u \<longleftrightarrow> host_allowed (allowed s) url" "snd (require_host w url s) = s"
  by (auto simp: require_host_def flow_simps split: sum.split)

lemma keeps_require_host [keeps_intro, simp]: "keeps I (require_host w url)"
  by (rule keepsI) (simp add: require_host_ok)

lemma entry_matches_add: "host_of u \<noteq> [] \<Longrightarrow> entry_matches e (host_of u) \<Longrightarrow> e \<in> set al \<Longrightarrow> host_allowed (Some al) u"
  by (auto simp: host_allowed_def list_ex_iff)

lemma set_add_host: "set al \<subseteq> set (add_host h al)"
  by (auto simp: add_host_def)

text \<open>A longer whitelist allows more.\<close>

lemma host_allowed_mono: "host_allowed (Some al) u \<Longrightarrow> set al \<subseteq> set bl \<Longrightarrow> host_allowed (Some bl) u"
  by (auto simp: host_allowed_def list_ex_iff Let_def split: if_splits)

subsection \<open>Tokens\<close>

definition url_matches :: "string \<Rightarrow> string \<Rightarrow> bool flow" where
  "url_matches current goal =
     bind_flow (lift_py (urlparse current [])) (\<lambda>c. bind_flow (lift_py (urlparse goal [])) (\<lambda>t.
       ret (u_scheme c = u_scheme t \<and> u_netloc c = u_netloc t \<and> u_path c = u_path t)))"

definition check_cookies_for_token :: "string \<Rightarrow> string option flow" where
  "check_cookies_for_token name = ask (\<lambda>s. map_option ck_value (find (\<lambda>c. ck_name c = name) (jar s)))"

definition extract_token :: "reply \<Rightarrow> string \<Rightarrow> string option flow" where
  "extract_token resp name =
     (case map_of (r_cookies resp) name of
        Some v \<Rightarrow> ret (Some v)
      | None \<Rightarrow> check_cookies_for_token name)"

text \<open>\<open>if token:\<close> --- neither \<open>None\<close> nor empty.\<close>

definition truthy :: "string option \<Rightarrow> bool" where
  "truthy t \<longleftrightarrow> t \<noteq> None \<and> t \<noteq> Some []"

lemma keeps_token [keeps_intro, simp]:
  "keeps I (url_matches c t)" "keeps I (check_cookies_for_token n)" "keeps I (extract_token resp n)"
  by (auto simp: url_matches_def check_cookies_for_token_def extract_token_def intro!: keeps_intro)

subsection \<open>Two runs side by side\<close>

text \<open>
  \<open>sideways R m\<close>: from sessions related by \<open>R\<close>, \<open>m\<close> gives the same result in sessions related by
  \<open>R\<close>.  \<open>refines R m\<close>: so it does whenever the first run succeeds.
\<close>

definition sideways :: "(sess \<Rightarrow> sess \<Rightarrow> bool) \<Rightarrow> 'a flow \<Rightarrow> bool" where
  "sideways R m \<longleftrightarrow> (\<forall>s s'. R s s' \<longrightarrow> fst (m s) = fst (m s') \<and> R (snd (m s)) (snd (m s')))"

definition refines :: "(sess \<Rightarrow> sess \<Rightarrow> bool) \<Rightarrow> 'a flow \<Rightarrow> bool" where
  "refines R m \<longleftrightarrow> (\<forall>s s' x t. R s s' \<longrightarrow> m s = (Inr x, t) \<longrightarrow> (\<exists>t'. m s' = (Inr x, t') \<and> R t t'))"

named_theorems para_intro \<open>composition of side by side facts\<close>

lemma sidewaysI:
  "(\<And>s s'. R s s' \<Longrightarrow> fst (m s) = fst (m s')) \<Longrightarrow> (\<And>s s'. R s s' \<Longrightarrow> R (snd (m s)) (snd (m s'))) \<Longrightarrow> sideways R m"
  by (simp add: sideways_def)

lemma sidewaysD: "sideways R m \<Longrightarrow> R s s' \<Longrightarrow> m s = (r, t) \<Longrightarrow> \<exists>t'. m s' = (r, t') \<and> R t t'"
  unfolding sideways_def by (metis fst_conv snd_conv surj_pair)

lemma sideways_refines: "sideways R m \<Longrightarrow> refines R m"
  unfolding refines_def by (metis sidewaysD)

lemma refinesD: "refines R m \<Longrightarrow> R s s' \<Longrightarrow> m s = (Inr x, t) \<Longrightarrow> \<exists>t'. m s' = (Inr x, t') \<and> R t t'"
  by (simp add: refines_def)

lemma sideways_bind [para_intro]:
  assumes "sideways R m" "\<And>x. sideways R (f x)"
  shows "sideways R (bind_flow m f)"
proof -
  have "fst (bind_flow m f s) = fst (bind_flow m f s') \<and> R (snd (bind_flow m f s)) (snd (bind_flow m f s'))" if r: "R s s'" for s s'
  proof -
    obtain x t where m: "m s = (x, t)" by fastforce
    obtain t' where m': "m s' = (x, t')" "R t t'" using sidewaysD [OF assms(1) r m] by blast
    show ?thesis
    proof (cases x)
      case (Inr y)
      then show ?thesis using assms(2) [of y] m m' by (simp add: bind_flow_def sideways_def)
    qed (use m m' in \<open>simp add: bind_flow_def\<close>)
  qed
  then show ?thesis by (simp add: sideways_def)
qed

lemma refines_bind [para_intro]:
  assumes "refines R m" "\<And>x. refines R (f x)"
  shows "refines R (bind_flow m f)"
  unfolding refines_def
proof (intro allI impI)
  fix s s' y t assume r: "R s s'" and b: "bind_flow m f s = (Inr y, t)"
  then obtain x s1 where m: "m s = (Inr x, s1)" "f x s1 = (Inr y, t)" by (auto simp: bind_flow_Inr)
  obtain s1' where m': "m s' = (Inr x, s1')" "R s1 s1'" using refinesD [OF assms(1) r m(1)] by blast
  obtain t' where "f x s1' = (Inr y, t')" "R t t'" using refinesD [OF assms(2) m'(2) m(2)] by blast
  then show "\<exists>t'. bind_flow m f s' = (Inr y, t') \<and> R t t'" using m'(1) by (auto simp: bind_flow_Inr)
qed

lemma sideways_basic [para_intro, simp]:
  "sideways R (ret x)" "sideways R (throw e)" "sideways R (lift_py p)"
  by (auto simp: sideways_def flow_simps split: sum.split)

lemma refines_basic [para_intro, simp]:
  "refines R (ret x)" "refines R (throw e)" "refines R (lift_py p)"
  by (simp_all add: sideways_refines)

lemma sideways_ask: "(\<And>s s'. R s s' \<Longrightarrow> f s = f s') \<Longrightarrow> sideways R (ask f)"
  by (simp add: sideways_def ask_def)

lemma sideways_change: "(\<And>s s'. R s s' \<Longrightarrow> R (f s) (f s')) \<Longrightarrow> sideways R (change f)"
  by (simp add: sideways_def change_def)

lemma side_guard [para_intro]:
  "sideways R m \<Longrightarrow> sideways R (guard b m)" "refines R m \<Longrightarrow> refines R (guard b m)"
  by (simp_all add: guard_def)

lemma side_cases [para_intro]:
  "(b \<Longrightarrow> sideways R m) \<Longrightarrow> (\<not> b \<Longrightarrow> sideways R n) \<Longrightarrow> sideways R (if b then m else n)"
  "(b \<Longrightarrow> refines R m) \<Longrightarrow> (\<not> b \<Longrightarrow> refines R n) \<Longrightarrow> refines R (if b then m else n)"
  "sideways R p \<Longrightarrow> (\<And>y. sideways R (g y)) \<Longrightarrow> sideways R (case o1 of None \<Rightarrow> p | Some y \<Rightarrow> g y)"
  "refines R p \<Longrightarrow> (\<And>y. refines R (g y)) \<Longrightarrow> refines R (case o1 of None \<Rightarrow> p | Some y \<Rightarrow> g y)"
  "(\<And>a b. sideways R (h a b)) \<Longrightarrow> sideways R (case pr of (a, b) \<Rightarrow> h a b)"
  "(\<And>a b. refines R (h a b)) \<Longrightarrow> refines R (case pr of (a, b) \<Rightarrow> h a b)"
  "(\<And>e. sideways R (k e)) \<Longrightarrow> (\<And>y. sideways R (j y)) \<Longrightarrow> sideways R (case sm of Inl e \<Rightarrow> k e | Inr y \<Rightarrow> j y)"
  "(\<And>e. refines R (k' e)) \<Longrightarrow> (\<And>y. refines R (j' y)) \<Longrightarrow> refines R (case sm of Inl e \<Rightarrow> k' e | Inr y \<Rightarrow> j' y)"
  "sideways R p \<Longrightarrow> (\<And>y ys. sideways R (c y ys)) \<Longrightarrow> sideways R (case ls of [] \<Rightarrow> p | y # ys \<Rightarrow> c y ys)"
  "refines R p \<Longrightarrow> (\<And>y ys. refines R (c y ys)) \<Longrightarrow> refines R (case ls of [] \<Rightarrow> p | y # ys \<Rightarrow> c y ys)"
  by (auto split: option.split prod.split sum.split list.split)

text \<open>Sessions that differ in one component at most.\<close>

definition but_allowed :: "sess \<Rightarrow> sess \<Rightarrow> bool" where
  "but_allowed s s' \<longleftrightarrow> s' = s\<lparr>allowed := allowed s'\<rparr>"

definition but_offset :: "sess \<Rightarrow> sess \<Rightarrow> bool" where
  "but_offset s s' \<longleftrightarrow> s' = s\<lparr>offset := offset s'\<rparr>"

text \<open>The second session has no whitelist.\<close>

definition unguarded :: "sess \<Rightarrow> sess \<Rightarrow> bool" where
  "unguarded s s' \<longleftrightarrow> s' = s\<lparr>allowed := None\<rparr>"

lemma sess_eq_iff:
  "(s :: sess) = t \<longleftrightarrow> allowed s = allowed t \<and> offset s = offset t \<and> rejected s = rejected t \<and> jar s = jar t
     \<and> trace s = trace t \<and> clock s = clock t \<and> cooldown_file s = cooldown_file t \<and> probe_log s = probe_log t"
proof
  assume "allowed s = allowed t \<and> offset s = offset t \<and> rejected s = rejected t \<and> jar s = jar t
     \<and> trace s = trace t \<and> clock s = clock t \<and> cooldown_file s = cooldown_file t \<and> probe_log s = probe_log t"
  then show "s = t" by (intro sess.equality) simp_all
qed simp

lemma but_sess:
  "but_allowed s s' \<longleftrightarrow> offset s' = offset s \<and> rejected s' = rejected s \<and> jar s' = jar s \<and> trace s' = trace s
     \<and> clock s' = clock s \<and> cooldown_file s' = cooldown_file s \<and> probe_log s' = probe_log s"
  "but_offset s s' \<longleftrightarrow> allowed s' = allowed s \<and> rejected s' = rejected s \<and> jar s' = jar s \<and> trace s' = trace s
     \<and> clock s' = clock s \<and> cooldown_file s' = cooldown_file s \<and> probe_log s' = probe_log s"
  "unguarded s s' \<longleftrightarrow> allowed s' = None \<and> offset s' = offset s \<and> rejected s' = rejected s \<and> jar s' = jar s \<and> trace s' = trace s
     \<and> clock s' = clock s \<and> cooldown_file s' = cooldown_file s \<and> probe_log s' = probe_log s"
  unfolding but_allowed_def but_offset_def unguarded_def sess_eq_iff by (simp_all add: conj_ac)

lemma clock_related:
  "but_allowed s s' \<Longrightarrow> but_allowed (record_server_clock h s) (record_server_clock h s')"
  "but_offset s s' \<Longrightarrow> but_offset (record_server_clock h s) (record_server_clock h s')"
  "unguarded s s' \<Longrightarrow> unguarded (record_server_clock h s) (record_server_clock h s')"
  by (auto simp: but_sess record_server_clock_def Let_def split: prod.split option.split)

lemma sideways_send_by:
  assumes "\<And>s s'. R s s' \<Longrightarrow> trace s' = trace s"
    and up: "\<And>s s' h j. R s s' \<Longrightarrow> R (s\<lparr>trace := h, jar := j\<rparr>) (s'\<lparr>trace := h, jar := j\<rparr>)"
    and ck: "\<And>h s s'. R s s' \<Longrightarrow> R (record_server_clock h s) (record_server_clock h s')"
  shows "sideways R (send l q)"
proof -
  have f: "R s s' \<Longrightarrow> R (fold record_server_clock hs s) (fold record_server_clock hs s')" for hs s s'
    by (induction hs arbitrary: s s') (simp_all add: ck)
  have "fst (send l q s) = fst (send l q s') \<and> R (snd (send l q s)) (snd (send l q s'))" if r: "R s s'" for s s'
    unfolding send_def Let_def fst_conv snd_conv assms(1) [OF r] by (intro conjI refl f up r)
  then show ?thesis by (simp add: sideways_def)
qed

lemma sideways_send:
  shows "sideways but_allowed (send l q)" and "sideways but_offset (send l q)" and "sideways unguarded (send l q)"
proof -
  show "sideways but_allowed (send l q)" by (rule sideways_send_by; (simp only: clock_related)?; simp add: but_sess)
  show "sideways but_offset (send l q)" by (rule sideways_send_by; (simp only: clock_related)?; simp add: but_sess)
  show "sideways unguarded (send l q)" by (rule sideways_send_by; (simp only: clock_related)?; simp add: but_sess)
qed

lemma sideways_fetch_by: "sideways R (send l q) \<Longrightarrow> sideways R (fetch l q)"
  unfolding fetch_def raise_for_status_def by (intro para_intro)

lemmas sideways_fetch [para_intro, simp] = sideways_send [THEN sideways_fetch_by]

lemma sideways_require_host [para_intro, simp]: "sideways but_offset (require_host w u)"
  by (auto simp: sideways_def require_host_def flow_simps but_sess split: sum.split)

lemma refines_require_host [para_intro, simp]: "refines unguarded (require_host w u)"
  by (auto simp: refines_def require_host_def flow_simps but_sess host_allowed_def split: sum.splits if_splits)

lemma refines_extend_allowed [para_intro, simp]: "refines unguarded (extend_allowed u)"
  by (auto simp: refines_def extend_allowed_def flow_simps but_sess split: sum.splits option.splits)

lemma sideways_extend_allowed [para_intro, simp]: "sideways but_offset (extend_allowed u)"
  by (auto simp: sideways_def extend_allowed_def flow_simps but_sess split: sum.split option.split)

lemma sideways_token [para_intro, simp]:
  "sideways R (url_matches c t)"
  by (auto simp: url_matches_def intro!: para_intro)

subsection \<open>What the whitelist means\<close>

text \<open>\<open>__init__\<close>: \<open>list(allowed_hosts) if allowed_hosts else None\<close>.\<close>

definition init_sess :: "string list option \<Rightarrow> rat \<Rightarrow> rat option option \<Rightarrow> bool \<Rightarrow> sess" where
  "init_sess hosts now cooldown loggable =
     \<lparr>allowed = (case hosts of None \<Rightarrow> None | Some [] \<Rightarrow> None | Some hs \<Rightarrow> Some hs), offset = 0, rejected = False,
      jar = [], trace = [], clock = now, cooldown_file = cooldown,
      probe_log = (if loggable then Some [] else None)\<rparr>"

text \<open>
  A host is allowed when an entry names it, or when the entry is \<open>*.\<close> and a domain of which the host is
  a proper subdomain; \<open>evil-example.com\<close> is no subdomain of \<open>example.com\<close>.  A URL without a host, and
  one that does not parse, is refused.
\<close>

theorem whitelist_meaning:
  "host_allowed (Some entries) url \<longleftrightarrow>
     host_of url \<noteq> [] \<and>
     (\<exists>e\<in>set entries. lower (strip e) = host_of url \<or>
        (\<exists>domain sub. lower (strip e) = ''*.'' @ domain \<and> host_of url = sub @ ''.'' @ domain))"
proof -
  have em: "entry_matches e h \<longleftrightarrow> lower (strip e) = h \<or> (\<exists>domain sub. lower (strip e) = ''*.'' @ domain \<and> h = sub @ ''.'' @ domain)"
    if "h \<noteq> []" for e h
  proof -
    have "prefix ''*.'' x \<and> suffix (drop 1 x) h \<longleftrightarrow> (\<exists>domain sub. x = ''*.'' @ domain \<and> h = sub @ ''.'' @ domain)" for x
      by (auto simp: prefix_def suffix_def)
    then have "entry_matches e h \<longleftrightarrow> lower (strip e) \<noteq> [] \<and>
        (lower (strip e) = h \<or> (\<exists>domain sub. lower (strip e) = ''*.'' @ domain \<and> h = sub @ ''.'' @ domain))"
      unfolding entry_matches_def Let_def by simp
    then show ?thesis using that by auto
  qed
  show ?thesis
    by (cases "host_of url = []") (simp_all add: host_allowed_def Let_def list_ex_iff em)
qed

text \<open>
  The empty list, which \<open>_host_allowed\<close> documents as blocking everything, becomes no whitelist in the
  constructor and allows everything.
\<close>

lemma empty_whitelist_allows_all: "host_allowed (allowed (init_sess (Some []) now cd b)) url"
  by (simp add: init_sess_def host_allowed_def)

subsection \<open>The HTTP session\<close>

text \<open>
  What \<open>_create_session\<close> sets on a \<open>requests\<close> session: the proxy for each scheme, the headers of every
  request, whether the adapter for legacy TLS is mounted, whether certificates are verified and
  whether \<open>requests\<close> may take settings from the environment.  The hook it installs is
  \<open>record_server_clock\<close>, which \<open>send\<close> runs on every response.
\<close>

record http_session =
  hs_proxies :: "(string \<times> string) list"
  hs_headers :: "(string \<times> string) list"
  hs_legacy_tls :: bool
  hs_verify :: bool
  hs_trust_env :: bool

definition create_session :: "string option \<Rightarrow> bool \<Rightarrow> bool \<Rightarrow> http_session" where
  "create_session proxy ssl_legacy verify_tls =
     \<lparr>hs_proxies = (case proxy of None \<Rightarrow> [] | Some p \<Rightarrow> if p = [] then [] else [(''http'', p), (''https'', p)]),
      hs_headers =
        [(''User-Agent'', ''Mozilla/5.0 (X11; Linux x86_64) AppleWebKit/537.36 (KHTML, like Gecko) Chrome/120.0.0.0 Safari/537.36''),
         (''Accept'', ''text/html,application/xhtml+xml,application/xml;q=0.9,*/*;q=0.8''),
         (''Accept-Language'', ''en-US,en;q=0.5'')],
      hs_legacy_tls = ssl_legacy,
      hs_verify = verify_tls,
      hs_trust_env = verify_tls\<rparr>"

text \<open>
  \<open>requests\<close> lets \<open>REQUESTS_CA_BUNDLE\<close> replace the session's setting while it trusts the environment:
  \<open>bundle\<close> tells whether the variable is set.  A session asked not to verify stays so.
\<close>

definition verifies :: "http_session \<Rightarrow> bool \<Rightarrow> bool" where
  "verifies hs bundle \<longleftrightarrow> hs_trust_env hs \<and> bundle \<or> hs_verify hs"

lemma verify_as_asked: "verifies (create_session proxy ssl_legacy v) bundle \<longleftrightarrow> v"
  by (auto simp: verifies_def create_session_def)

end
