(* ===== verification/HeadlessForm.thy ===== *)
theory HeadlessForm
  imports Headless
begin

text \<open>
  \<open>vpn/headless.py\<close>: the generic login, \<open>_auto_authenticate\<close>, that follows the pages of an identity
  provider and fills in their forms, with \<open>_fill_form\<close>, the TOTP code at the server's clock and
  after its cooldown, the page heuristics, and \<open>_raise_if_credentials_rejected\<close>.
\<close>

subsection \<open>TOTP codes\<close>

text \<open>\<open>int(x)\<close>.\<close>

definition trunc :: "rat \<Rightarrow> int" where
  "trunc x = (if x < 0 then \<lceil>x\<rceil> else \<lfloor>x\<rfloor>)"

text \<open>
  \<open>_compute_totp_at_server_time\<close>: any error on the way to the secret or in \<open>pyotp\<close> falls back to the
  code of the local clock.
\<close>

definition compute_totp_at_server_time :: "lib \<Rightarrow> creds \<Rightarrow> string option flow" where
  "compute_totp_at_server_time l c =
     bind_flow (ask clock) (\<lambda>now. bind_flow (ask offset) (\<lambda>off.
       let secret = (if truthy (c_secret c) then Inr (c_secret c) else keyring l (c_username c));
           code = (case secret of
               Inl e \<Rightarrow> Inl e
             | Inr sec \<Rightarrow>
                 (if truthy sec then (case totp_at l (the sec) (trunc (now + off)) of Inl e \<Rightarrow> Inl e | Inr t \<Rightarrow> Inr (Some t))
                  else Inr None))
       in case code of
            Inr (Some t) \<Rightarrow> ret (Some t)
          | _ \<Rightarrow> ret (local_totp l now)))"

text \<open>
  The wait for the cooldown that the setup left behind; the file is removed after it, if it held a
  number.
\<close>

definition wait_cooldown :: "lib \<Rightarrow> unit flow" where
  "wait_cooldown l =
     change (\<lambda>s.
       if appdata l then
         (case cooldown_file s of
            Some (Some expires_at) \<Rightarrow>
              (let s1 = (if 0 < expires_at - clock s then s\<lparr>clock := clock s + (expires_at - clock s + 1 / 2)\<rparr> else s)
               in if unlink_works l then s1\<lparr>cooldown_file := None\<rparr> else s1)
          | _ \<Rightarrow> s)
       else s)"

definition get_totp_after_cooldown :: "lib \<Rightarrow> creds \<Rightarrow> string option flow" where
  "get_totp_after_cooldown l c = bind_flow (wait_cooldown l) (\<lambda>_. compute_totp_at_server_time l c)"

subsection \<open>Filling in a form\<close>

definition default :: "'a list option \<Rightarrow> 'a list" where
  "default x = (case x of None \<Rightarrow> [] | Some v \<Rightarrow> v)"

definition username_hints :: "string list" where
  "username_hints = [''user'', ''email'', ''login'', ''loginfmt'', ''username'', ''account'']"

definition totp_hints :: "string list" where
  "totp_hints = [''otp'', ''otc'', ''totp'', ''verification'', ''code'', ''token'', ''mfa'']"

definition is_username_field :: "string \<Rightarrow> input_el \<Rightarrow> bool" where
  "is_username_field name_lower el =
     (if list_ex (\<lambda>h. sublist h name_lower) username_hints then True
      else if list_ex (\<lambda>h. sublist h (lower (default (el_placeholder el)))) username_hints then True
      else lower (default (el_autocomplete el)) \<in> {''username'', ''email''})"

definition is_totp_field :: "string \<Rightarrow> input_el \<Rightarrow> bool" where
  "is_totp_field name_lower el =
     (if list_ex (\<lambda>h. sublist h name_lower) totp_hints then True
      else list_ex (\<lambda>h. sublist h (lower (default (el_placeholder el)))) totp_hints)"

text \<open>Which credential belongs into an input, if any.\<close>

datatype slot = Username | Password | Totp | Other

definition slot_of :: "string \<Rightarrow> input_el \<Rightarrow> bool \<Rightarrow> slot" where
  "slot_of name el has_totp =
     (let input_type = lower (if truthy (el_type el) then the (el_type el) else ''text''); name_lower = lower name in
      if input_type \<in> {''email'', ''text''} \<and> is_username_field name_lower el then Username
      else if input_type = ''password'' then Password
      else if is_totp_field name_lower el \<and> has_totp then Totp
      else Other)"

definition opt_json :: "string option \<Rightarrow> json" where
  "opt_json x = (case x of None \<Rightarrow> JNull | Some v \<Rightarrow> JStr v)"

text \<open>One field: whether it was filled, and its value.\<close>

definition fill_field :: "lib \<Rightarrow> creds \<Rightarrow> form \<Rightarrow> bool \<Rightarrow> string \<times> json \<Rightarrow> (bool \<times> (string \<times> json)) flow" where
  "fill_field l c frm has_totp field =
     (case field of (name, v) \<Rightarrow>
        bind_flow (lift_py (f_input frm name)) (\<lambda>found.
          case found of
            None \<Rightarrow> ret (False, name, v)
          | Some el \<Rightarrow>
              (case slot_of name el has_totp of
                 Username \<Rightarrow> ret (if c_username c \<noteq> [] then (True, name, JStr (c_username c)) else (False, name, v))
               | Password \<Rightarrow> ret (if c_password c \<noteq> [] then (True, name, JStr (c_password c)) else (False, name, v))
               | Totp \<Rightarrow> bind_flow (get_totp_after_cooldown l c) (\<lambda>code. ret (True, name, opt_json code))
               | Other \<Rightarrow> ret (False, name, v))))"

fun fill_fields :: "lib \<Rightarrow> creds \<Rightarrow> form \<Rightarrow> bool \<Rightarrow> (string \<times> json) list \<Rightarrow> (bool \<times> (string \<times> json) list) flow" where
  "fill_fields l c frm has_totp [] = ret (False, [])"
| "fill_fields l c frm has_totp (field # r) =
     bind_flow (fill_field l c frm has_totp field) (\<lambda>(b, fv).
       bind_flow (fill_fields l c frm has_totp r) (\<lambda>(bs, fvs). ret (b \<or> bs, fv # fvs)))"

text \<open>A SAML relay form gets the cookie its script would set, and nothing else.\<close>

definition is_relay :: "(string \<times> json) list \<Rightarrow> bool" where
  "is_relay form_data \<longleftrightarrow> ''SAMLResponse'' \<in> fst ` set form_data \<or> ''SAMLRequest'' \<in> fst ` set form_data"

definition form_value :: "string \<Rightarrow> (string \<times> json) list \<Rightarrow> string" where
  "form_value name form_data = (case map_of form_data name of Some (JStr v) \<Rightarrow> v | _ \<Rightarrow> [])"

definition csrf_of :: "(string \<times> json) list \<Rightarrow> string" where
  "csrf_of form_data =
     (if form_value ''csrf_token'' form_data \<noteq> [] then form_value ''csrf_token'' form_data
      else form_value ''CSRFtoken'' form_data)"

definition set_csrf_cookie :: "lib \<Rightarrow> form \<Rightarrow> string \<Rightarrow> unit flow" where
  "set_csrf_cookie l frm csrf =
     bind_flow (if prefix ''http'' (default (f_action frm)) then lift_py (hostname (default (f_action frm))) else ret None) (\<lambda>host.
     bind_flow (ask jar) (\<lambda>j.
     bind_flow (lift_py (set_cookie l \<lparr>ck_name = ''CSRFtoken'', ck_value = csrf, ck_domain = host\<rparr> j)) (\<lambda>j'.
     change (\<lambda>s. s\<lparr>jar := j'\<rparr>))))"

definition fill_form :: "lib \<Rightarrow> creds option \<Rightarrow> form \<Rightarrow> (string \<times> json) list \<Rightarrow> (bool \<times> (string \<times> json) list) flow" where
  "fill_form l credentials frm form_data =
     (if is_relay form_data then
        bind_flow (if csrf_of form_data \<noteq> [] then set_csrf_cookie l frm (csrf_of form_data) else ret ()) (\<lambda>_.
          ret (False, form_data))
      else case credentials of
        None \<Rightarrow> ret (False, form_data)
      | Some c \<Rightarrow> bind_flow (ask clock) (\<lambda>now. fill_fields l c frm (truthy (local_totp l now)) form_data))"

subsection \<open>Rejection\<close>

definition REJECTION_SIGNALS :: "string list" where
  "REJECTION_SIGNALS =
     [''invalid username or password'',
      ''invalid credentials'',
      ''incorrect username or password'',
      ''authentication failed'',
      ''wrong username or password'',
      ''bad credentials'',
      ''login failed'',
      ''invalid authenticator code'',
      ''invalid one-time code'',
      ''your account or password is incorrect'',
      ''account is temporarily disabled'',
      ''account is disabled'',
      ''account is locked'',
      ''ung'' @ [CHR 0xFC] @ ''ltiger benutzername oder passwort'',
      ''ung'' @ [CHR 0xFC] @ ''ltige anmeldedaten'',
      ''ung'' @ [CHR 0xFC] @ ''ltiger authentifizierungscode'',
      ''falscher benutzername oder passwort'',
      ''anmeldung fehlgeschlagen'',
      ''ihr konto ist deaktiviert'',
      ''ihr konto ist gesperrt'',
      ''ung'' @ [CHR 0xFC] @ ''ltige anmeldedaten'']"

definition matched_signals :: "string \<Rightarrow> string list" where
  "matched_signals page_text = filter (\<lambda>sig. sublist sig (lower page_text)) REJECTION_SIGNALS"

text \<open>The line of the probe log, but for its time; a log that cannot be written is ignored.\<close>

definition write_probe_log :: "string \<Rightarrow> unit flow" where
  "write_probe_log page_text =
     change (\<lambda>s. s\<lparr>probe_log := map_option (\<lambda>ls. ls @ [(matched_signals page_text, take 6000 page_text)]) (probe_log s)\<rparr>)"

definition raise_if_credentials_rejected :: "string \<Rightarrow> unit flow" where
  "raise_if_credentials_rejected page_text =
     bind_flow (write_probe_log page_text) (\<lambda>_.
     case matched_signals page_text of
        [] \<Rightarrow> ret ()
      | m # ms \<Rightarrow> bind_flow (change (\<lambda>s. s\<lparr>rejected := True\<rparr>)) (\<lambda>_. throw (HeadlessAuthError (ServerRejected m))))"

subsection \<open>Redirects without a form\<close>

text \<open>The pattern \<open>url\s*=\s*['"]?([^'";\s]+)\<close> without regard to case.\<close>

definition refresh_rx :: "rx list" where
  "refresh_rx = word_ci ''url'' @ [spaces, One (\<lambda>c. c = CHR ''=''), spaces, Maybe quote_char,
     Cap [Many (\<lambda>c. \<not> quote_char c \<and> c \<noteq> CHR '';'' \<and> \<not> str_space c) 1 False]]"

definition absolute :: "string \<Rightarrow> string \<Rightarrow> string flow" where
  "absolute base url = (if prefix ''http'' url then ret url else lift_py (urljoin base url))"

text \<open>The first element that names a URL decides.\<close>

fun find_meta_refresh :: "string list \<Rightarrow> string \<Rightarrow> string option flow" where
  "find_meta_refresh [] base = ret None"
| "find_meta_refresh (content # metas) base =
     (case rx_search refresh_rx content of
        Some (url # gs, rest) \<Rightarrow> bind_flow (absolute base url) (\<lambda>u. ret (Some u))
      | _ \<Rightarrow> find_meta_refresh metas base)"

definition no_quotes :: "nat \<Rightarrow> rx" where
  "no_quotes m = Cap [Many (\<lambda>c. \<not> quote_char c) m False]"

definition in_tag :: rx where
  "in_tag = Many (\<lambda>c. c \<noteq> CHR ''>'') 0 False"

definition attr_rx :: "string \<Rightarrow> nat \<Rightarrow> rx list" where
  "attr_rx name m = word_ci name @ [spaces, One (\<lambda>c. c = CHR ''=''), spaces, One quote_char, no_quotes m, One quote_char]"

definition auto_form_rx :: "rx list" where
  "auto_form_rx = word_ci ''<form'' @ [in_tag] @ attr_rx ''action'' 1
     @ [in_tag, One (\<lambda>c. c = CHR ''>''), Cap [Many (\<lambda>c. True) 0 True]] @ word_ci ''</form>''"

definition name_value_rx :: "rx list" where
  "name_value_rx = word_ci ''<input'' @ [in_tag] @ attr_rx ''name'' 1 @ [in_tag] @ attr_rx ''value'' 0"

definition value_name_rx :: "rx list" where
  "value_name_rx = word_ci ''<input'' @ [in_tag] @ attr_rx ''value'' 0 @ [in_tag] @ attr_rx ''name'' 1"

fun add_name_value :: "lib \<Rightarrow> string list \<Rightarrow> (string \<times> json) list \<Rightarrow> (string \<times> json) list" where
  "add_name_value l (n # v # gs) data = AList.update (unescape l n) (JStr (unescape l v)) data"
| "add_name_value l gs data = data"

fun add_value_name :: "lib \<Rightarrow> string list \<Rightarrow> (string \<times> json) list \<Rightarrow> (string \<times> json) list" where
  "add_value_name l (v # n # gs) data =
     (if unescape l n \<notin> fst ` set data then AList.update (unescape l n) (JStr (unescape l v)) data else data)"
| "add_value_name l gs data = data"

definition find_auto_post_form :: "lib \<Rightarrow> string \<Rightarrow> string \<Rightarrow> (string \<times> (string \<times> json) list) option flow" where
  "find_auto_post_form l html_text base =
     (case rx_search auto_form_rx html_text of
        Some (action # body # gs, rest) \<Rightarrow>
          (if \<not> sublist ''submit()'' (lower html_text) then ret None
           else bind_flow (absolute base (unescape l action)) (\<lambda>u.
             ret (Some (u, fold (add_value_name l) (rx_finditer value_name_rx body)
               (fold (add_name_value l) (rx_finditer name_value_rx body) [])))))
      | _ \<Rightarrow> ret None)"

subsection \<open>The login loop\<close>

text \<open>The request a form asks for.\<close>

definition form_data_of :: "form \<Rightarrow> (string \<times> json) list" where
  "form_data_of frm = map (\<lambda>(n, v). (n, JStr (default v))) (f_fields frm)"

definition form_action :: "form \<Rightarrow> string \<Rightarrow> string flow" where
  "form_action frm current_url = absolute current_url (if truthy (f_action frm) then the (f_action frm) else current_url)"

definition form_method :: "form \<Rightarrow> string" where
  "form_method frm = map upper_byte (if truthy (f_method frm) then the (f_method frm) else ''POST'')"

definition form_request :: "form \<Rightarrow> string \<Rightarrow> (string \<times> json) list \<Rightarrow> request" where
  "form_request frm action data = (if form_method frm = ''GET'' then Get action data else Post action data)"

definition submit_form :: "lib \<Rightarrow> creds option \<Rightarrow> reply \<Rightarrow> form \<Rightarrow> reply flow" where
  "submit_form l credentials resp frm =
     bind_flow (form_action frm (r_url resp)) (\<lambda>action.
     bind_flow (fill_form l credentials frm (form_data_of frm)) (\<lambda>(filled, data).
     bind_flow (fetch l (form_request frm action data)) (\<lambda>resp1.
     bind_flow (if filled then raise_if_credentials_rejected (r_text resp1) else ret ()) (\<lambda>_.
     ret resp1))))"

text \<open>A page without forms.\<close>

definition follow_redirect :: "lib \<Rightarrow> reply \<Rightarrow> page \<Rightarrow> reply flow" where
  "follow_redirect l resp doc =
     bind_flow (find_meta_refresh (p_refresh doc) (r_url resp)) (\<lambda>meta_url.
       if truthy meta_url then fetch l (Get (the meta_url) [])
       else bind_flow (find_auto_post_form l (r_text resp) (r_url resp)) (\<lambda>auto.
         case auto of
           Some (u, data) \<Rightarrow> fetch l (Post u data)
         | None \<Rightarrow> throw (HeadlessAuthError NoForms)))"

definition process_page :: "lib \<Rightarrow> creds option \<Rightarrow> reply \<Rightarrow> reply flow" where
  "process_page l credentials resp =
     (if \<not> sublist ''html'' (lower (r_ctype resp)) \<and> \<not> sublist ''xml'' (lower (r_ctype resp)) then
        throw (HeadlessAuthError (ContentType (r_ctype resp)))
      else bind_flow (lift_py (r_page resp)) (\<lambda>doc.
        case p_forms doc of
          [] \<Rightarrow> follow_redirect l resp doc
        | frm # others \<Rightarrow> submit_form l credentials resp frm))"

text \<open>Where the token may be by now.\<close>

definition look_for_token :: "reply \<Rightarrow> string \<Rightarrow> string \<Rightarrow> string option flow" where
  "look_for_token resp login_final_url name =
     bind_flow (url_matches (r_url resp) login_final_url) (\<lambda>at_end.
     bind_flow (if at_end then extract_token resp name else ret None) (\<lambda>t1.
       if truthy t1 then ret t1 else check_cookies_for_token name))"

text \<open>One step of the loop: the token, or the next reply.\<close>

definition auto_step :: "lib \<Rightarrow> creds option \<Rightarrow> string \<Rightarrow> string \<Rightarrow> reply \<Rightarrow> (string + reply) flow" where
  "auto_step l credentials login_final_url name resp =
     bind_flow (require_host LandedOutside (r_url resp)) (\<lambda>_.
     bind_flow (look_for_token resp login_final_url name) (\<lambda>token.
       if truthy token then ret (Inl (the token))
       else bind_flow (process_page l credentials resp) (\<lambda>resp1. ret (Inr resp1))))"

fun auto_loop :: "lib \<Rightarrow> creds option \<Rightarrow> string \<Rightarrow> string \<Rightarrow> nat \<Rightarrow> reply \<Rightarrow> string flow" where
  "auto_loop l credentials fin name 0 resp = throw (HeadlessAuthError MaxSteps)"
| "auto_loop l credentials fin name (Suc n) resp =
     bind_flow (auto_step l credentials fin name resp) (\<lambda>r.
       case r of Inl token \<Rightarrow> ret token | Inr resp1 \<Rightarrow> auto_loop l credentials fin name n resp1)"

definition max_steps :: nat where
  "max_steps = 20"

definition auto_authenticate :: "lib \<Rightarrow> creds option \<Rightarrow> string \<Rightarrow> string \<Rightarrow> string \<Rightarrow> string flow" where
  "auto_authenticate l credentials login_url login_final_url name =
     bind_flow (extend_allowed login_url) (\<lambda>_.
     bind_flow (extend_allowed login_final_url) (\<lambda>_.
     bind_flow (require_host LoginHost login_url) (\<lambda>_.
     bind_flow (fetch l (Get login_url [])) (\<lambda>resp.
     auto_loop l credentials login_final_url name max_steps resp))))"

subsection \<open>What the steps leave alone\<close>

text \<open>Reading a page changes nothing.\<close>

lemma pure_bind: "(\<And>s. snd (m s) = s) \<Longrightarrow> (\<And>x s. snd (f x s) = s) \<Longrightarrow> snd (bind_flow m f s) = s"
  by (auto simp: bind_flow_def split: prod.split sum.split) (metis snd_conv)+

lemma pure_basic [simp]:
  "snd (ret x s) = s" "snd (throw e s) = s" "snd (lift_py p s) = s" "snd (ask g s) = s"
  by (auto simp: flow_simps split: sum.split)

lemma pure_absolute [simp]: "snd (absolute b u s) = s"
  by (simp add: absolute_def)

lemma pure_find_meta_refresh [simp]: "snd (find_meta_refresh ms b s) = s"
proof (induction ms b rule: find_meta_refresh.induct)
  case (2 content metas base)
  then show ?case by (auto intro!: pure_bind split: option.split list.split)
qed simp

lemma pure_find_auto_post_form [simp]: "snd (find_auto_post_form l t b s) = s"
  by (auto simp: find_auto_post_form_def intro!: pure_bind split: option.split list.split)

lemma pure_token [simp]:
  "snd (check_cookies_for_token n s) = s" "snd (extract_token resp n s) = s" "snd (look_for_token resp f n s) = s"
  "snd (url_matches c g s) = s"
proof -
  show c: "snd (check_cookies_for_token n s) = s" for s by (simp add: check_cookies_for_token_def)
  show e: "snd (extract_token resp n s) = s" for s by (auto simp: extract_token_def c split: option.split)
  show u: "snd (url_matches c g s) = s" for c g s by (auto simp: url_matches_def intro!: pure_bind)
  show "snd (look_for_token resp f n s) = s" by (auto simp: look_for_token_def c e u intro!: pure_bind)
qed

lemma keeps_pure: "(\<And>s. snd (m s) = s) \<Longrightarrow> keeps I m"
  by (simp add: keepsI)

lemmas keeps_reading [keeps_intro] =
  keeps_pure [OF pure_absolute] keeps_pure [OF pure_find_meta_refresh] keeps_pure [OF pure_find_auto_post_form]
  keeps_pure [OF pure_token(3)]

text \<open>Filling in a form touches the clock, the cooldown file and the cookies only.\<close>

definition core :: "sess \<Rightarrow> string list option \<times> bool \<times> request list \<times> rat" where
  "core s = (allowed s, rejected s, trace s, offset s)"

definition unchanged :: "'a flow \<Rightarrow> bool" where
  "unchanged m \<longleftrightarrow> (\<forall>s. core (snd (m s)) = core s)"

lemma unchanged_keeps: "unchanged m \<longleftrightarrow> (\<forall>v. keeps (\<lambda>s. core s = v) m)"
  unfolding unchanged_def keeps_def triple_def by blast

lemma wait_cooldown_core: "core (snd (wait_cooldown l s)) = core s"
  by (simp add: wait_cooldown_def core_def Let_def change_def split: option.split)

lemma unchanged_fill_form: "unchanged (fill_form l credentials frm data)"
proof -
  have w: "keeps (\<lambda>s. core s = v) (wait_cooldown l)" for v
    by (rule keepsI) (simp add: wait_cooldown_core)
  have c: "keeps I (compute_totp_at_server_time l c)" for I c
    unfolding compute_totp_at_server_time_def Let_def by (intro keeps_intro) 
  have f: "keeps (\<lambda>s. core s = v) (fill_field l c frm b fd)" for v c b fd
    unfolding fill_field_def get_totp_after_cooldown_def
    by (intro keeps_intro w c) (auto intro!: keeps_intro w c split: slot.split)
  have fs: "keeps (\<lambda>s. core s = v) (fill_fields l c frm b fds)" for v c b fds
    by (induction fds) (auto intro!: keeps_intro f)
  have k: "keeps (\<lambda>s. core s = v) (set_csrf_cookie l frm csrf)" for v csrf
    unfolding set_csrf_cookie_def by (intro keeps_intro keeps_change) (simp add: core_def)
  show ?thesis unfolding unchanged_keeps fill_form_def by (intro allI keeps_intro fs k)
qed

lemma fill_form_core:
  assumes "fill_form l credentials frm data s = (r, t)"
  shows "allowed t = allowed s" "rejected t = rejected s" "trace t = trace s" "offset t = offset s"
  using unchanged_fill_form [of l credentials frm data] assms by (auto simp: unchanged_def core_def dest!: spec [of _ s])

lemma keeps_fill_form [keeps_intro]:
  "(\<And>s t. I s \<Longrightarrow> core t = core s \<Longrightarrow> I t) \<Longrightarrow> keeps I (fill_form l credentials frm data)"
  using unchanged_fill_form [of l credentials frm data] by (intro keepsI) (auto simp: unchanged_def)

subsection \<open>How many requests, and from where\<close>

text \<open>A step sends at most one request.\<close>

lemma fetch_trace: "trace (snd (fetch l q s)) = trace s @ [q]" "allowed (snd (fetch l q s)) = allowed s"
proof -
  have "snd (fetch l q s) = snd (send l q s)"
    by (auto simp: fetch_def raise_for_status_def flow_simps split: prod.split sum.split)
  then show "trace (snd (fetch l q s)) = trace s @ [q]" "allowed (snd (fetch l q s)) = allowed s" by simp_all
qed

lemma fetch_reply: "fetch l q s = (Inr resp, t) \<Longrightarrow> a_reply (serve l (trace t)) = Inr resp"
  by (auto simp: fetch_def raise_for_status_def flow_simps send_def Let_def split: prod.splits sum.splits if_splits)

text \<open>\<open>sends A m\<close>: from a session with whitelist \<open>A\<close>, \<open>m\<close> keeps the whitelist and sends one request or
  fails without; a reply it gives is the answer to that request.\<close>

definition sends :: "lib \<Rightarrow> reply flow \<Rightarrow> bool" where
  "sends l m \<longleftrightarrow> (\<forall>s r t. m s = (r, t) \<longrightarrow>
     allowed t = allowed s \<and> (\<exists>qs. trace t = trace s @ qs \<and> length qs \<le> 1 \<and>
       (\<forall>resp. r = Inr resp \<longrightarrow> length qs = 1 \<and> a_reply (serve l (trace t)) = Inr resp)))"

lemma sends_fetch: "sends l (fetch l q)"
  unfolding sends_def
proof (intro allI impI)
  fix s r t assume f: "fetch l q s = (r, t)"
  show "allowed t = allowed s \<and> (\<exists>qs. trace t = trace s @ qs \<and> length qs \<le> 1 \<and>
       (\<forall>resp. r = Inr resp \<longrightarrow> length qs = 1 \<and> a_reply (serve l (trace t)) = Inr resp))"
    using fetch_trace [of l q s] fetch_reply [of l q s] f by (auto intro!: exI [of _ "[q]"])
qed

lemma sends_throw: "sends l (throw e)"
  by (simp add: sends_def throw_def)

lemma sends_after:
  assumes "\<And>s. allowed (snd (m s)) = allowed s \<and> trace (snd (m s)) = trace s" "\<And>x. sends l (f x)"
  shows "sends l (bind_flow m f)"
  unfolding sends_def
proof (intro allI impI)
  fix s r t assume b: "bind_flow m f s = (r, t)"
  obtain x s1 where m: "m s = (x, s1)" by fastforce
  with assms(1) [of s] have s1: "allowed s1 = allowed s" "trace s1 = trace s" by simp_all
  show "allowed t = allowed s \<and> (\<exists>qs. trace t = trace s @ qs \<and> length qs \<le> 1 \<and>
       (\<forall>resp. r = Inr resp \<longrightarrow> length qs = 1 \<and> a_reply (serve l (trace t)) = Inr resp))"
  proof (cases x)
    case (Inl e)
    with b m s1 show ?thesis by (auto simp: bind_flow_def)
  next
    case (Inr y)
    with b m have "f y s1 = (r, t)" by (simp add: bind_flow_def)
    with assms(2) [of y] s1 show ?thesis unfolding sends_def by metis
  qed
qed

lemma sends_before:
  assumes "sends l m" "\<And>x s. allowed (snd (g x s)) = allowed s \<and> trace (snd (g x s)) = trace s"
  shows "sends l (bind_flow m (\<lambda>x. bind_flow (g x) (\<lambda>_. ret x)))"
  unfolding sends_def
proof (intro allI impI)
  fix s r t assume b: "bind_flow m (\<lambda>x. bind_flow (g x) (\<lambda>_. ret x)) s = (r, t)"
  obtain x s1 where m: "m s = (x, s1)" by fastforce
  note sm = assms(1) [unfolded sends_def, rule_format, OF m]
  show "allowed t = allowed s \<and> (\<exists>qs. trace t = trace s @ qs \<and> length qs \<le> 1 \<and>
       (\<forall>resp. r = Inr resp \<longrightarrow> length qs = 1 \<and> a_reply (serve l (trace t)) = Inr resp))"
  proof (cases x)
    case (Inl e)
    with b m sm show ?thesis by (auto simp: bind_flow_def)
  next
    case (Inr y)
    obtain z s2 where g: "g y s1 = (z, s2)" by fastforce
    have "t = s2 \<and> (\<forall>resp. r = Inr resp \<longrightarrow> resp = y)"
      using b m Inr g by (auto simp: bind_flow_def ret_def split: sum.splits)
    with sm Inr assms(2) [of y s1] g show ?thesis by auto
  qed
qed

lemma sends_process_page: "sends l (process_page l credentials resp)"
proof -
  have p: "allowed (snd (m s)) = allowed s \<and> trace (snd (m s)) = trace s" if "snd (m s) = s" for m :: "'a flow" and s
    using that by simp
  have ff: "allowed (snd (fill_form l credentials frm data s)) = allowed s \<and> trace (snd (fill_form l credentials frm data s)) = trace s" for frm data s
    using fill_form_core [of l credentials frm data s] by (metis prod.collapse)
  have rej: "allowed (snd (raise_if_credentials_rejected t s)) = allowed s \<and> trace (snd (raise_if_credentials_rejected t s)) = trace s" for t s
    by (simp add: raise_if_credentials_rejected_def write_probe_log_def flow_simps split: list.split)
  have red: "sends l (follow_redirect l resp doc)" for doc
    unfolding follow_redirect_def
    by (rule sends_after, rule p, simp, cases "truthy x") (auto intro!: sends_fetch sends_after p sends_throw split: option.split)
  have sub: "sends l (submit_form l credentials resp frm)" for frm
    unfolding submit_form_def form_action_def
    by (rule sends_after, rule p, simp, rule sends_after, rule ff) (auto intro!: sends_before sends_fetch simp: rej)
  show ?thesis unfolding process_page_def
    by (auto intro!: sends_after p red sub sends_throw split: list.split)
qed

subsection \<open>The loop\<close>

text \<open>
  What a run from the page \<open>resp\<close> sends: each request comes after a page on an allowed host, and so
  does the token, which is in a cookie under the right name.
\<close>

definition orderly :: "lib \<Rightarrow> string \<Rightarrow> nat \<Rightarrow> sess \<Rightarrow> fail + string \<Rightarrow> sess \<Rightarrow> bool" where
  "orderly l name n s r t \<longleftrightarrow>
     allowed t = allowed s \<and>
     (\<exists>qs. trace t = trace s @ qs \<and> length qs \<le> n \<and>
        (\<forall>k<length qs. \<exists>p. a_reply (serve l (trace s @ take k qs)) = Inr p \<and> host_allowed (allowed s) (r_url p))) \<and>
     (\<forall>token. r = Inr token \<longrightarrow> token \<noteq> [] \<and>
        (\<exists>p. a_reply (serve l (trace t)) = Inr p \<and> host_allowed (allowed s) (r_url p) \<and>
           (map_of (r_cookies p) name = Some token \<or> (\<exists>ck\<in>set (jar t). ck_name ck = name \<and> ck_value ck = token))))"

lemma pure_step:
  "(\<And>s. snd (m s) = s) \<Longrightarrow> bind_flow m f s = (Inr y, t) \<Longrightarrow> \<exists>x. m s = (Inr x, s) \<and> f x s = (Inr y, t)"
  by (auto simp: bind_flow_def split: prod.splits sum.splits) (metis snd_conv)+

lemma token_in_cookie:
  assumes "look_for_token resp fin name s = (Inr (Some token), t)"
  shows "map_of (r_cookies resp) name = Some token \<or> (\<exists>ck\<in>set (jar s). ck_name ck = name \<and> ck_value ck = token)"
proof -
  have c: "check_cookies_for_token name s = (Inr (Some token), s) \<Longrightarrow> \<exists>ck\<in>set (jar s). ck_name ck = name \<and> ck_value ck = token"
    by (auto simp: check_cookies_for_token_def ask_def find_Some_iff)
  have e: "extract_token resp name s = (Inr (Some token), s) \<Longrightarrow> ?thesis"
    using c by (auto simp: extract_token_def ret_def split: option.splits)
  have t: "t = s" using assms pure_token(3) by (metis snd_conv)
  obtain b where b: "bind_flow (if b then extract_token resp name else ret None)
        (\<lambda>t1. if truthy t1 then ret t1 else check_cookies_for_token name) s = (Inr (Some token), s)"
    using pure_step [OF pure_token(4) assms [unfolded look_for_token_def t]] by blast
  have "snd ((if b then extract_token resp name else ret None) s) = s" for s by simp
  from pure_step [OF this b] obtain t1 where "(if b then extract_token resp name else ret None) s = (Inr t1, s)"
      "(if truthy t1 then ret t1 else check_cookies_for_token name) s = (Inr (Some token), s)" by blast
  then show ?thesis using c e by (auto simp: ret_def split: if_splits)
qed

lemma require_host_cases:
  "require_host w u s = (if host_allowed (allowed s) u then (Inr (), s)
     else (Inl (case hostname u of Inl e \<Rightarrow> Raised e | Inr h \<Rightarrow> HeadlessAuthError w), s))"
  by (auto simp: require_host_def flow_simps split: sum.split)

text \<open>A step is a token, or a request from an allowed page.\<close>

lemma auto_step_cases:
  assumes "auto_step l credentials fin name resp s = (r, t)" "a_reply (serve l (trace s)) = Inr resp"
  obtains (error) e where "r = Inl e" "orderly l name 1 s (Inl e) t"
  | (token) token where "r = Inr (Inl token)" "t = s" "orderly l name 0 s (Inr token) s"
  | (again) resp1 q where "r = Inr (Inr resp1)" "allowed t = allowed s" "trace t = trace s @ [q]"
      "a_reply (serve l (trace t)) = Inr resp1" "host_allowed (allowed s) (r_url resp)"
proof (cases "host_allowed (allowed s) (r_url resp)")
  case False
  then have "\<exists>e. r = Inl e \<and> t = s" using assms(1) by (auto simp: auto_step_def bind_flow_def require_host_cases)
  then show thesis by (auto intro!: error simp: orderly_def)
next
  case True
  obtain y s1 where lt: "look_for_token resp fin name s = (y, s1)" by fastforce
  then have s1: "s1 = s" using pure_token(3) [of resp fin name s] by simp
  show thesis
  proof (cases y)
    case (Inl e)
    then have "r = Inl e" "t = s" using assms(1) lt True s1 by (auto simp: auto_step_def bind_flow_def require_host_cases)
    then show thesis by (auto intro!: error simp: orderly_def)
  next
    case (Inr tk)
    then have st: "(if truthy tk then ret (Inl (the tk))
        else bind_flow (process_page l credentials resp) (\<lambda>resp1. ret (Inr resp1))) s = (r, t)"
      using assms(1) lt True s1 by (auto simp: auto_step_def bind_flow_def require_host_cases)
    show thesis
    proof (cases "truthy tk")
      case True
      then obtain tok where "tk = Some tok" "tok \<noteq> []" by (auto simp: truthy_def)
      then show thesis using st lt Inr s1 token_in_cookie [of resp fin name s tok s] assms(2) \<open>host_allowed _ _\<close>
        by (intro token [of tok]) (auto simp: ret_def orderly_def truthy_def)
    next
      case False
      obtain z t1 where pp: "process_page l credentials resp s = (z, t1)" by fastforce
      note sd = sends_process_page [of l credentials resp, unfolded sends_def, rule_format, OF pp]
      from sd obtain qs where qs: "trace t1 = trace s @ qs" "length qs \<le> 1" "allowed t1 = allowed s"
          "\<forall>resp. z = Inr resp \<longrightarrow> length qs = 1 \<and> a_reply (serve l (trace t1)) = Inr resp" by blast
      show thesis
      proof (cases z)
        case (Inl e)
        then have "r = Inl e" "t = t1" using st False pp by (auto simp: bind_flow_def)
        moreover have "qs = [] \<or> (\<exists>q. qs = [q])" using qs(2) by (cases qs) auto
        ultimately show thesis using qs assms(2) \<open>host_allowed _ _\<close> by (intro error [of e]) (auto simp: orderly_def)
      next
        case (Inr resp1)
        then have "r = Inr (Inr resp1)" "t = t1" using st False pp by (auto simp: bind_flow_def ret_def)
        moreover obtain q where "qs = [q]" using qs(4) Inr by (auto simp: length_Suc_conv)
        ultimately show thesis using qs Inr \<open>host_allowed _ _\<close> by (intro again [of resp1 q]) auto
      qed
    qed
  qed
qed

lemma orderly_step:
  assumes "orderly l name n s1 r t" "trace s1 = trace s @ [q]" "allowed s1 = allowed s"
    and "a_reply (serve l (trace s)) = Inr resp" "host_allowed (allowed s) (r_url resp)"
  shows "orderly l name (Suc n) s r t"
proof -
  obtain qs where qs: "trace t = trace s1 @ qs" "length qs \<le> n"
      "\<forall>k<length qs. \<exists>p. a_reply (serve l (trace s1 @ take k qs)) = Inr p \<and> host_allowed (allowed s1) (r_url p)"
    using assms(1) by (auto simp: orderly_def)
  have "\<forall>k<length (q # qs). \<exists>p. a_reply (serve l (trace s @ take k (q # qs))) = Inr p \<and> host_allowed (allowed s) (r_url p)"
    using qs(3) assms(2-5) by (auto simp: less_Suc_eq_0_disj)
  moreover have "trace t = trace s @ q # qs" "length (q # qs) \<le> Suc n" using qs assms(2) by simp_all
  ultimately have "\<exists>qs. trace t = trace s @ qs \<and> length qs \<le> Suc n \<and>
      (\<forall>k<length qs. \<exists>p. a_reply (serve l (trace s @ take k qs)) = Inr p \<and> host_allowed (allowed s) (r_url p))" by blast
  then show ?thesis using assms(1,3) by (simp add: orderly_def)
qed

lemma orderly_more: "orderly l name n s r t \<Longrightarrow> n \<le> m \<Longrightarrow> orderly l name m s r t"
  unfolding orderly_def by (blast intro: order_trans)

lemma auto_loop_orderly:
  "auto_loop l credentials fin name n resp s = (r, t) \<Longrightarrow> a_reply (serve l (trace s)) = Inr resp \<Longrightarrow> orderly l name n s r t"
proof (induction n arbitrary: resp s)
  case 0
  then show ?case by (auto simp: throw_def orderly_def)
next
  case (Suc n)
  obtain y s1 where st: "auto_step l credentials fin name resp s = (y, s1)" by fastforce
  from st Suc(3) show ?case
  proof (cases rule: auto_step_cases)
    case (error e)
    then show ?thesis using Suc(2) st by (auto simp: bind_flow_def intro: orderly_more)
  next
    case (token tok)
    then show ?thesis using Suc(2) st by (auto simp: bind_flow_def ret_def intro: orderly_more)
  next
    case (again resp1 q)
    then have "auto_loop l credentials fin name n resp1 s1 = (r, t)" using Suc(2) st by (auto simp: bind_flow_def)
    from Suc(1) [OF this again(4)] show ?thesis using orderly_step [OF _ again(3,2) Suc(3) again(5)] by blast
  qed
qed

text \<open>The whole login: the whitelist is set up first, then the loop runs.\<close>

lemma extend_allowed_trace: "trace (snd (extend_allowed u s)) = trace s" "jar (snd (extend_allowed u s)) = jar s"
  by (auto simp: extend_allowed_def flow_simps split: option.split sum.split)

lemma extend_allowed_clock: "clock (snd (extend_allowed u s)) = clock s"
  by (auto simp: extend_allowed_def flow_simps split: option.split sum.split)

lemma auto_authenticate_cases:
  assumes "auto_authenticate l credentials login_url fin name s = (r, t)"
  obtains (early) e where "r = Inl e" "trace t = trace s \<or> trace t = trace s @ [Get login_url []]"
  | (loop) s1 resp where "trace s1 = trace s @ [Get login_url []]" "a_reply (serve l (trace s1)) = Inr resp"
      "host_allowed (allowed s1) login_url" "orderly l name max_steps s1 r t"
      "auto_loop l credentials fin name max_steps resp s1 = (r, t)"
proof -
  obtain x1 a where 1: "extend_allowed login_url s = (x1, a)" by fastforce
  obtain x2 b where 2: "extend_allowed fin a = (x2, b)" by fastforce
  have tr: "trace a = trace s" "trace b = trace s"
    using extend_allowed_trace [of login_url s] extend_allowed_trace [of fin a] 1 2 by simp_all
  obtain x3 c where 3: "fetch l (Get login_url []) b = (x3, c)" by fastforce
  have c: "trace c = trace s @ [Get login_url []]" "allowed c = allowed b"
    using fetch_trace [of l "Get login_url []" b] 3 tr by simp_all
  show thesis
  proof (cases "\<exists>e. x1 = Inl e \<or> x2 = Inl e \<or> \<not> host_allowed (allowed b) login_url \<or> x3 = Inl e")
    case True
    then have "\<exists>e. r = Inl e \<and> (trace t = trace s \<or> trace t = trace s @ [Get login_url []])"
      using assms 1 2 3 tr c by (auto simp: auto_authenticate_def bind_flow_def require_host_cases split: sum.splits if_splits)
    then show thesis using early by blast
  next
    case False
    then obtain u v resp where "x1 = Inr u" "x2 = Inr v" "x3 = Inr resp" "host_allowed (allowed b) login_url"
      by (metis sum.exhaust)
    moreover from this have "auto_loop l credentials fin name max_steps resp c = (r, t)"
      using assms 1 2 3 by (auto simp: auto_authenticate_def bind_flow_def require_host_cases)
    moreover have "a_reply (serve l (trace c)) = Inr resp" using fetch_reply 3 \<open>x3 = _\<close> by blast
    ultimately show thesis using c auto_loop_orderly by (intro loop [of c resp]) auto
  qed
qed

subsection \<open>A concrete identity provider\<close>

text \<open>
  A login page at \<open>idp.at\<close> whose form posts to \<open>action\<close>, and behind it the page of the gateway that
  sets the token.
\<close>

definition blank_reply :: reply where
  "blank_reply = \<lparr>r_url = [], r_status = 200, r_ctype = ''text/html'', r_text = [], r_page = Inl OtherException,
     r_xml = None, r_json = Inl ValueError, r_cookies = []\<rparr>"

definition login_form :: "string \<Rightarrow> form" where
  "login_form action = \<lparr>f_action = Some action, f_method = Some ''post'',
     f_fields = [(''user'', None), (''pw'', None)],
     f_input = (\<lambda>n. Inr (Some \<lparr>el_type = (if n = ''pw'' then Some ''password'' else None), el_placeholder = None, el_autocomplete = None\<rparr>))\<rparr>"

definition sample_serve :: "string \<Rightarrow> request list \<Rightarrow> answer" where
  "sample_serve action h =
     (if length h = 1 then
        \<lparr>a_reply = Inr (blank_reply\<lparr>r_url := ''https://idp.at/login'', r_page := Inr \<lparr>p_forms = [login_form action], p_refresh = []\<rparr>\<rparr>),
         a_jar = [], a_hops = [(1, Some (Some 1000))]\<rparr>
      else \<lparr>a_reply = Inr (blank_reply\<lparr>r_url := ''https://vpn.at/end''\<rparr>),
         a_jar = [\<lparr>ck_name = ''webvpn'', ck_value = ''T'', ck_domain = None\<rparr>], a_hops = [(1, None)]\<rparr>)"

definition sample_lib :: "(request list \<Rightarrow> answer) \<Rightarrow> lib" where
  "sample_lib srv = \<lparr>serve = srv, set_cookie = (\<lambda>c j. Inr (j @ [c])), unescape = (\<lambda>s. s), loads = (\<lambda>s. None),
     totp_at = (\<lambda>sec n. Inr (show_nat (nat n))), keyring = (\<lambda>u. Inr None), local_totp = (\<lambda>now. Some ''000000''),
     uuid4 = (\<lambda>h. ''id''), appdata = True, unlink_works = True\<rparr>"

definition sample_sess :: "string list option \<Rightarrow> sess" where
  "sample_sess al = \<lparr>allowed = al, offset = 0, rejected = False, jar = [], trace = [], clock = 0, cooldown_file = None, probe_log = None\<rparr>"

definition sample_creds :: creds where
  "sample_creds = \<lparr>c_username = ''u'', c_password = ''p'', c_secret = Some ''S''\<rparr>"

definition sample_login :: "string \<Rightarrow> (fail + string) \<times> sess" where
  "sample_login action = auto_authenticate (sample_lib (sample_serve action)) (Some sample_creds)
     ''https://idp.at/login'' ''https://vpn.at/end'' ''webvpn'' (sample_sess (Some [''idp.at'']))"

lemma sample_login_run:
  "trace (snd (sample_login ''https://evil.com/x'')) = [Get ''https://idp.at/login'' [],
       Post ''https://evil.com/x'' [(''user'', JStr ''u''), (''pw'', JStr ''p'')]]"
  "fst (sample_login ''https://evil.com/x'') = Inr ''T''"
  "allowed (snd (sample_login ''https://evil.com/x'')) = Some [''idp.at'', ''vpn.at'']"
  by code_simp+

lemma sample_login_page:
  "a_reply (sample_serve ''https://evil.com/x'' [Get ''https://idp.at/login'' []])
     = Inr (blank_reply\<lparr>r_url := ''https://idp.at/login'', r_page := Inr \<lparr>p_forms = [login_form ''https://evil.com/x''], p_refresh = []\<rparr>\<rparr>)"
  by (simp add: sample_serve_def)

subsection \<open>Requests of the login\<close>

text \<open>
  C31.  The login ends after at most 21 requests: the login page and one for each of the 20 steps.
\<close>

theorem login_requests_bounded:
  "length (trace (snd (auto_authenticate l credentials login_url fin name s))) \<le> length (trace s) + 21"
proof -
  obtain r t where a: "auto_authenticate l credentials login_url fin name s = (r, t)" by fastforce
  then have "length (trace t) \<le> length (trace s) + 21"
    by (cases rule: auto_authenticate_cases) (auto simp: orderly_def max_steps_def)
  with a show ?thesis by simp
qed

text \<open>
  C9.  With a whitelist, the login stops where a redirect leaves it: before every request but the
  first, the page that was reached is on an allowed host.
\<close>

theorem requests_follow_allowed_pages:
  assumes "auto_authenticate l credentials login_url fin name s = (r, t)"
    and "length (trace s) < k" "k < length (trace t)"
  shows "\<exists>p. a_reply (serve l (take k (trace t))) = Inr p \<and> host_allowed (allowed t) (r_url p)"
  using assms(1)
proof (cases rule: auto_authenticate_cases)
  case (early e)
  then show ?thesis using assms(2,3) by auto
next
  case (loop s1 resp)
  then obtain qs where qs: "trace t = trace s1 @ qs" "allowed t = allowed s1"
      "\<forall>k<length qs. \<exists>p. a_reply (serve l (trace s1 @ take k qs)) = Inr p \<and> host_allowed (allowed s1) (r_url p)"
    by (auto simp: orderly_def)
  have "take k (trace t) = trace s1 @ take (k - length (trace s1)) qs" "k - length (trace s1) < length qs"
    using assms(2,3) qs(1) loop(1) by (simp_all only: take_append) auto
  then show ?thesis using qs by metis
qed

theorem requests_follow_allowed_pages_witness:
  "host_allowed (allowed (snd (sample_login ''https://evil.com/x''))) ''https://idp.at/login''"
proof -
  have a: "auto_authenticate (sample_lib (sample_serve ''https://evil.com/x'')) (Some sample_creds)
     ''https://idp.at/login'' ''https://vpn.at/end'' ''webvpn'' (sample_sess (Some [''idp.at'']))
     = (fst (sample_login ''https://evil.com/x''), snd (sample_login ''https://evil.com/x''))" by (simp add: sample_login_def)
  from requests_follow_allowed_pages [OF a, of 1]
  obtain p where "a_reply (sample_serve ''https://evil.com/x'' [Get ''https://idp.at/login'' []]) = Inr p"
      "host_allowed (allowed (snd (sample_login ''https://evil.com/x''))) (r_url p)"
    by (auto simp: sample_login_run(1) sample_sess_def sample_lib_def)
  then have "host_allowed (allowed (snd (sample_login ''https://evil.com/x''))) (r_url p)" "r_url p = ''https://idp.at/login''"
    unfolding sample_login_page by (auto dest: sym)
  then show ?thesis by simp
qed

text \<open>
  C7.  The token is what the server set: a nonempty cookie under the name of the token, in the last
  reply or in the session, and the last page is on an allowed host.
\<close>

theorem token_comes_from_cookie:
  assumes "auto_authenticate l credentials login_url fin name s = (Inr token, t)"
  shows "token \<noteq> [] \<and> (\<exists>p. a_reply (serve l (trace t)) = Inr p \<and> host_allowed (allowed t) (r_url p) \<and>
    (map_of (r_cookies p) name = Some token \<or> (\<exists>ck\<in>set (jar t). ck_name ck = name \<and> ck_value ck = token)))"
  using assms
proof (cases rule: auto_authenticate_cases)
  case (loop s1 resp)
  then show ?thesis by (auto simp: orderly_def)
qed simp

theorem token_comes_from_cookie_witness:
  "\<exists>p. a_reply (sample_serve ''https://evil.com/x'' (trace (snd (sample_login ''https://evil.com/x'')))) = Inr p
     \<and> host_allowed (allowed (snd (sample_login ''https://evil.com/x''))) (r_url p)"
proof -
  have "auto_authenticate (sample_lib (sample_serve ''https://evil.com/x'')) (Some sample_creds)
     ''https://idp.at/login'' ''https://vpn.at/end'' ''webvpn'' (sample_sess (Some [''idp.at'']))
     = (Inr ''T'', snd (sample_login ''https://evil.com/x''))"
    unfolding sample_login_def [symmetric] using sample_login_run(2) by (metis prod.collapse)
  from token_comes_from_cookie [OF this] show ?thesis by (auto simp: sample_lib_def)
qed

subsection \<open>The whitelist and the steps of the login\<close>

text \<open>
  A relation between sessions that agree on everything a page can show or a form can use.  What
  reads and fills forms cannot tell them apart.
\<close>

locale blind =
  fixes R :: "sess \<Rightarrow> sess \<Rightarrow> bool"
  assumes same: "R s s' \<Longrightarrow> clock s = clock s' \<and> offset s = offset s' \<and> jar s = jar s' \<and> cooldown_file s = cooldown_file s'"
    and clock_step: "R s s' \<Longrightarrow> R (s\<lparr>clock := c\<rparr>) (s'\<lparr>clock := c\<rparr>)"
    and file_step: "R s s' \<Longrightarrow> R (s\<lparr>cooldown_file := f\<rparr>) (s'\<lparr>cooldown_file := f\<rparr>)"
    and jar_step: "R s s' \<Longrightarrow> R (s\<lparr>jar := j\<rparr>) (s'\<lparr>jar := j\<rparr>)"
    and reject_step: "R s s' \<Longrightarrow> R (s\<lparr>rejected := b\<rparr>) (s'\<lparr>rejected := b\<rparr>)"
    and log_step: "R s s' \<Longrightarrow> R (s\<lparr>probe_log := map_option g (probe_log s)\<rparr>) (s'\<lparr>probe_log := map_option g (probe_log s')\<rparr>)"
    and send_step: "sideways R (send l q)"
begin

lemma side_ask: "sideways R (ask clock)" "sideways R (ask offset)" "sideways R (ask jar)"
  using same by (auto intro!: sideways_ask)

lemma side_fetch: "sideways R (fetch l q)"
  by (rule sideways_fetch_by [OF send_step])

lemma side_wait_cooldown: "sideways R (wait_cooldown l)"
  unfolding wait_cooldown_def
proof (rule sideways_change)
  fix s s' assume r: "R s s'"
  note e = same [OF r]
  have c: "R (s\<lparr>clock := x, cooldown_file := y\<rparr>) (s'\<lparr>clock := x, cooldown_file := y\<rparr>)" for x y
    by (intro file_step clock_step r)
  show "R (if appdata l then case cooldown_file s of Some (Some expires_at) \<Rightarrow>
              (let s1 = (if 0 < expires_at - clock s then s\<lparr>clock := clock s + (expires_at - clock s + 1 / 2)\<rparr> else s)
               in if unlink_works l then s1\<lparr>cooldown_file := None\<rparr> else s1) | _ \<Rightarrow> s else s)
          (if appdata l then case cooldown_file s' of Some (Some expires_at) \<Rightarrow>
              (let s1 = (if 0 < expires_at - clock s' then s'\<lparr>clock := clock s' + (expires_at - clock s' + 1 / 2)\<rparr> else s')
               in if unlink_works l then s1\<lparr>cooldown_file := None\<rparr> else s1) | _ \<Rightarrow> s' else s')"
    using e r clock_step [OF r] file_step [OF r] c by (simp add: Let_def split: option.split)
qed

lemma side_totp: "sideways R (get_totp_after_cooldown l c)"
  unfolding get_totp_after_cooldown_def compute_totp_at_server_time_def Let_def
  by (intro para_intro side_ask side_wait_cooldown)

lemma side_fill_field: "sideways R (fill_field l c frm b fd)"
  unfolding fill_field_def by (intro para_intro) (auto intro!: para_intro side_totp split: slot.split)

lemma side_fill_form: "sideways R (fill_form l credentials frm data)"
proof -
  have "sideways R (fill_fields l c frm b fds)" for c b fds
    by (induction fds) (auto intro!: para_intro side_fill_field)
  then show ?thesis unfolding fill_form_def set_csrf_cookie_def
    by (intro para_intro side_ask sideways_change jar_step)
qed

lemma side_absolute: "sideways R (absolute b u)"
  by (simp add: absolute_def)

lemma side_reject: "sideways R (raise_if_credentials_rejected t)"
  unfolding raise_if_credentials_rejected_def write_probe_log_def by (intro para_intro sideways_change reject_step log_step)

lemma side_submit_form: "sideways R (submit_form l credentials resp frm)"
  unfolding submit_form_def form_action_def
  by (intro para_intro side_absolute side_fill_form side_fetch side_reject)

lemma side_find_meta_refresh: "sideways R (find_meta_refresh ms b)"
proof (induction ms b rule: find_meta_refresh.induct)
  case (2 content metas base)
  then show ?case by (auto intro!: para_intro side_absolute split: option.split list.split)
qed simp

lemma side_process_page: "sideways R (process_page l credentials resp)"
proof -
  have "sideways R (find_auto_post_form l t b)" for t b
    unfolding find_auto_post_form_def by (auto intro!: para_intro side_absolute split: option.split list.split)
  then have "sideways R (follow_redirect l resp doc)" for doc
    unfolding follow_redirect_def by (intro para_intro side_find_meta_refresh side_fetch)
  then show ?thesis unfolding process_page_def by (intro para_intro side_submit_form)
qed

lemma side_look_for_token: "sideways R (look_for_token resp fin name)"
proof -
  have "sideways R (check_cookies_for_token name)"
    unfolding check_cookies_for_token_def using same by (auto intro!: sideways_ask)
  then show ?thesis unfolding look_for_token_def extract_token_def by (intro para_intro sideways_token)
qed

end

interpretation hidden: blind but_allowed
  by unfold_locales (auto simp: but_sess sideways_send)

interpretation dropped: blind unguarded
  by unfold_locales (auto simp: but_sess sideways_send)

lemma refines_auto_loop: "refines unguarded (auto_loop l credentials fin name n resp)"
proof (induction n arbitrary: resp)
  case (Suc n)
  have "refines unguarded (auto_step l credentials fin name resp)"
    unfolding auto_step_def
    by (intro para_intro sideways_refines dropped.side_look_for_token dropped.side_process_page)
  with Suc show ?case by (auto intro!: para_intro)
qed simp

text \<open>
  C10.  A whitelist only restricts: whatever login succeeds with one succeeds without, with the same
  token and the same requests.
\<close>

theorem whitelist_only_restricts:
  assumes "auto_authenticate l credentials login_url fin name s = (Inr token, t)"
  shows "auto_authenticate l credentials login_url fin name (s\<lparr>allowed := None\<rparr>) = (Inr token, t\<lparr>allowed := None\<rparr>)"
proof -
  have "refines unguarded (auto_authenticate l credentials login_url fin name)"
    unfolding auto_authenticate_def
    by (intro para_intro sideways_refines sideways_fetch refines_auto_loop)
  from refinesD [OF this _ assms] show ?thesis by (auto simp: unguarded_def)
qed

theorem whitelist_only_restricts_witness:
  "fst (auto_authenticate (sample_lib (sample_serve ''https://evil.com/x'')) (Some sample_creds)
     ''https://idp.at/login'' ''https://vpn.at/end'' ''webvpn'' ((sample_sess (Some [''idp.at'']))\<lparr>allowed := None\<rparr>)) = Inr ''T''"
proof -
  have "auto_authenticate (sample_lib (sample_serve ''https://evil.com/x'')) (Some sample_creds)
     ''https://idp.at/login'' ''https://vpn.at/end'' ''webvpn'' (sample_sess (Some [''idp.at'']))
     = (Inr ''T'', snd (sample_login ''https://evil.com/x''))"
    unfolding sample_login_def [symmetric] using sample_login_run(2) by (metis prod.collapse)
  from whitelist_only_restricts [OF this] show ?thesis by simp
qed

text \<open>
  C11.  The whitelist does not protect the credentials: it has no influence on what a form is filled
  with and where it is sent, and in a concrete login the password goes to a host outside it, and
  the login still succeeds.
\<close>

theorem forms_ignore_the_whitelist:
  "fst (submit_form l credentials resp frm (s\<lparr>allowed := al\<rparr>)) = fst (submit_form l credentials resp frm s)
   \<and> trace (snd (submit_form l credentials resp frm (s\<lparr>allowed := al\<rparr>))) = trace (snd (submit_form l credentials resp frm s))
   \<and> (let t = snd (sample_login ''https://evil.com/x'') in
        fst (sample_login ''https://evil.com/x'') = Inr ''T'' \<and> \<not> host_allowed (allowed t) ''https://evil.com/x''
        \<and> Post ''https://evil.com/x'' [(''user'', JStr ''u''), (''pw'', JStr ''p'')] \<in> set (trace t))"
proof -
  have "but_allowed s (s\<lparr>allowed := al\<rparr>)" by (simp add: but_sess)
  with hidden.side_submit_form [of l credentials resp frm]
  have "fst (submit_form l credentials resp frm s) = fst (submit_form l credentials resp frm (s\<lparr>allowed := al\<rparr>))"
      "but_allowed (snd (submit_form l credentials resp frm s)) (snd (submit_form l credentials resp frm (s\<lparr>allowed := al\<rparr>)))"
    by (simp_all add: sideways_def)
  moreover have "\<not> host_allowed (Some [''idp.at'', ''vpn.at'']) ''https://evil.com/x''" by code_simp
  ultimately show ?thesis by (simp add: but_sess sample_login_run)
qed

subsection \<open>SAML relay forms\<close>

lemma set_csrf_cookie_effect:
  "set_csrf_cookie l frm csrf s = (r, t) \<Longrightarrow> t = s\<lparr>jar := jar t\<rparr> \<and>
   (r = Inr () \<longrightarrow> (\<exists>host. set_cookie l \<lparr>ck_name = ''CSRFtoken'', ck_value = csrf, ck_domain = host\<rparr> (jar s) = Inr (jar t)))"
  by (auto simp: set_csrf_cookie_def flow_simps split: sum.splits if_splits)

text \<open>
  C13.  A SAML relay form is never filled: its data goes out as it came, no credential and no TOTP code
  is used, and only the cookie jar may change.
\<close>

theorem relay_form_untouched:
  assumes "fill_form l credentials frm data s = (r, t)" "is_relay data"
  shows "(r = Inr (False, data) \<or> (\<exists>e. r = Inl e)) \<and> t = s\<lparr>jar := jar t\<rparr>
    \<and> (csrf_of data = [] \<longrightarrow> r = Inr (False, data) \<and> t = s)"
proof (cases "csrf_of data = []")
  case True
  then show ?thesis using assms by (auto simp: fill_form_def ret_def)
next
  case False
  obtain x s1 where k: "set_csrf_cookie l frm (csrf_of data) s = (x, s1)" by fastforce
  then show ?thesis using assms False set_csrf_cookie_effect [OF k]
    by (auto simp: fill_form_def bind_flow_def ret_def split: sum.splits)
qed

definition relay_data :: "(string \<times> json) list" where
  "relay_data = [(''SAMLResponse'', JStr ''x''), (''username'', JStr []), (''password'', JStr []), (''csrf_token'', JStr ''c'')]"

theorem relay_form_untouched_witness:
  "\<exists>t. fill_form (sample_lib (sample_serve [])) (Some sample_creds) (login_form ''https://vpn.at/acs'') relay_data (sample_sess None)
     = (Inr (False, relay_data), t) \<and> t = (sample_sess None)\<lparr>jar := jar t\<rparr>"
proof -
  obtain r t where f: "fill_form (sample_lib (sample_serve [])) (Some sample_creds) (login_form ''https://vpn.at/acs'') relay_data (sample_sess None)
     = (r, t)" by fastforce
  have "is_relay relay_data" by (simp add: is_relay_def relay_data_def)
  note u = relay_form_untouched [OF f this]
  have "isl (fst (fill_form (sample_lib (sample_serve [])) (Some sample_creds) (login_form ''https://vpn.at/acs'') relay_data (sample_sess None))) = False"
    by code_simp
  then show ?thesis using u f by auto
qed

subsection \<open>TOTP codes\<close>

lemma totp_at_offset:
  assumes "truthy (c_secret c)" "totp_at l (the (c_secret c)) (trunc (clock s + offset s)) = Inr code"
  shows "compute_totp_at_server_time l c s = (Inr (Some code), s)"
  using assms by (simp add: compute_totp_at_server_time_def flow_simps Let_def)



text \<open>
  No code is used before the cooldown is over: a code is computed half a second after the time in
  the cooldown file at the earliest, and then the file is gone, so the next code does not wait.
\<close>

theorem cooldown_is_waited_out:
  assumes "appdata l" "cooldown_file s = Some (Some expires_at)" "clock s < expires_at"
    and "get_totp_after_cooldown l c s = (r, t)"
  shows "clock t = expires_at + 1 / 2 \<and> (unlink_works l \<longrightarrow> cooldown_file t = None)
    \<and> r = fst (compute_totp_at_server_time l c (s\<lparr>clock := expires_at + 1 / 2\<rparr>))"
proof -
  let ?s = "snd (wait_cooldown l s)"
  have w: "?s = (if unlink_works l then s\<lparr>clock := expires_at + 1 / 2, cooldown_file := None\<rparr> else s\<lparr>clock := expires_at + 1 / 2\<rparr>)"
      "fst (wait_cooldown l s) = Inr ()"
    using assms(1-3) by (simp_all add: wait_cooldown_def change_def Let_def)
  have p: "snd (compute_totp_at_server_time l c u) = u" for u
    by (auto simp: compute_totp_at_server_time_def flow_simps Let_def split: sum.split option.split)
  have e: "fst (compute_totp_at_server_time l c (u\<lparr>cooldown_file := f\<rparr>)) = fst (compute_totp_at_server_time l c u)" for u f
    by (auto simp: compute_totp_at_server_time_def flow_simps Let_def split: sum.split option.split)
  have "t = ?s" "r = fst (compute_totp_at_server_time l c ?s)"
    using assms(4) w p [of ?s] by (auto simp: get_totp_after_cooldown_def bind_flow_def split: prod.splits sum.splits)
  then show ?thesis using w(1) e by simp
qed

theorem cooldown_is_waited_out_witness:
  "clock (snd (get_totp_after_cooldown (sample_lib (sample_serve [])) sample_creds
     ((sample_sess None)\<lparr>cooldown_file := Some (Some 20), clock := 10\<rparr>))) = 41 / 2"
proof -
  obtain r t where g: "get_totp_after_cooldown (sample_lib (sample_serve [])) sample_creds
     ((sample_sess None)\<lparr>cooldown_file := Some (Some 20), clock := 10\<rparr>) = (r, t)" by fastforce
  from cooldown_is_waited_out [OF _ _ _ g] show ?thesis using g by (simp add: sample_lib_def)
qed

subsection \<open>Rejected credentials\<close>

lemma rejection_raises:
  assumes "sig \<in> set REJECTION_SIGNALS" "sublist sig (lower text)"
  shows "\<exists>m t. raise_if_credentials_rejected text s = (Inl (HeadlessAuthError (ServerRejected m)), t) \<and> rejected t \<and> trace t = trace s"
proof -
  have "sig \<in> set (matched_signals text)" using assms by (simp add: matched_signals_def)
  then obtain m ms where "matched_signals text = m # ms" by (cases "matched_signals text") auto
  then show ?thesis by (simp add: raise_if_credentials_rejected_def write_probe_log_def flow_simps)
qed

text \<open>
  A rejection ends the login at once: if a form was filled and the page after it has one of the
  rejection messages, the step fails with that message, the session is marked as rejected, and
  nothing else is sent.
\<close>

theorem rejection_ends_login:
  assumes "form_action frm (r_url resp) s = (Inr action, s)"
    and "fill_form l credentials frm (form_data_of frm) s = (Inr (True, data), s1)"
    and "fetch l (form_request frm action data) s1 = (Inr resp1, s2)"
    and "sig \<in> set REJECTION_SIGNALS" "sublist sig (lower (r_text resp1))"
  shows "\<exists>m t. submit_form l credentials resp frm s = (Inl (HeadlessAuthError (ServerRejected m)), t) \<and> rejected t
    \<and> trace t = trace s @ [form_request frm action data]"
proof -
  have "trace s2 = trace s1 @ [form_request frm action data]" "trace s1 = trace s"
    using fetch_trace(1) [of l "form_request frm action data" s1] assms(3) fill_form_core(3) [OF assms(2)] by simp_all
  moreover obtain m t where "raise_if_credentials_rejected (r_text resp1) s2
      = (Inl (HeadlessAuthError (ServerRejected m)), t)" "rejected t" "trace t = trace s2"
    using rejection_raises [OF assms(4,5)] by blast
  ultimately show ?thesis using assms(1-3) by (simp add: submit_form_def bind_flow_def)
qed

text \<open>A server that rejects.\<close>

definition wrong_reply :: reply where
  "wrong_reply = blank_reply\<lparr>r_url := ''https://idp.at/login'', r_text := ''<p>Invalid credentials</p>''\<rparr>"

definition wrong_serve :: "request list \<Rightarrow> answer" where
  "wrong_serve h = \<lparr>a_reply = Inr (if length h = 1 then blank_reply\<lparr>r_url := ''https://idp.at/login'',
       r_page := Inr \<lparr>p_forms = [login_form ''https://idp.at/p''], p_refresh = []\<rparr>\<rparr> else wrong_reply), a_jar = [], a_hops = []\<rparr>"

lemma fill_sample:
  "fill_form (sample_lib srv) (Some sample_creds) (login_form a) (form_data_of (login_form a)) s
     = (Inr (True, [(''user'', JStr ''u''), (''pw'', JStr ''p'')]), s)"
proof -
  have "is_username_field ''user'' el" for el by (simp add: is_username_field_def username_hints_def)
  then show ?thesis
    by (simp add: fill_form_def form_data_of_def login_form_def is_relay_def flow_simps fill_field_def slot_of_def Let_def
        truthy_def default_def sample_creds_def lower_def lower_char_def)
qed

theorem rejection_ends_login_witness:
  "\<exists>m t. submit_form (sample_lib (\<lambda>h. (wrong_serve (h @ h)))) (Some sample_creds) blank_reply (login_form ''https://idp.at/p'') (sample_sess None)
     = (Inl (HeadlessAuthError (ServerRejected m)), t) \<and> rejected t \<and> length (trace t) = 1"
proof -
  let ?l = "sample_lib (\<lambda>h. (wrong_serve (h @ h)))" and ?d = "[(''user'', JStr ''u''), (''pw'', JStr ''p'')]"
  have a: "form_action (login_form ''https://idp.at/p'') (r_url blank_reply) (sample_sess None) = (Inr ''https://idp.at/p'', sample_sess None)"
    by (simp add: form_action_def absolute_def login_form_def truthy_def ret_def)
  obtain s2 where f: "fetch ?l (form_request (login_form ''https://idp.at/p'') ''https://idp.at/p'' ?d) (sample_sess None) = (Inr wrong_reply, s2)"
    by (simp add: fetch_def raise_for_status_def flow_simps send_def Let_def sample_lib_def wrong_serve_def sample_sess_def wrong_reply_def blank_reply_def)
  have m: "''invalid credentials'' \<in> set REJECTION_SIGNALS" by (simp add: REJECTION_SIGNALS_def)
  have t: "sublist ''invalid credentials'' (lower (r_text wrong_reply))" by code_simp
  from rejection_ends_login [OF a fill_sample f m t] show ?thesis by (auto simp: sample_sess_def)
qed

end
