(* ===== verification/HeadlessEntra.thy ===== *)
theory HeadlessEntra
  imports HeadlessForm
begin

text \<open>
  \<open>vpn/headless.py\<close>: the scripted login at Microsoft Entra ID, \<open>_auto_authenticate_entra\<close>, with the
  SAML form that ends it and the WS-Trust detour of federated tenants.
\<close>

subsection \<open>JSON values\<close>

fun json_true :: "json \<Rightarrow> bool" where
  "json_true JNull = False"
| "json_true (JBool b) = b"
| "json_true (JNum n) = (n \<noteq> 0)"
| "json_true (JStr s) = (s \<noteq> [])"
| "json_true (JList xs) = (xs \<noteq> [])"
| "json_true (JObj kvs) = (kvs \<noteq> [])"

text \<open>\<open>x.get(key, default)\<close>, for a dictionary only; a method of \<open>str\<close> on a value.\<close>

fun json_get :: "json \<Rightarrow> string \<Rightarrow> json \<Rightarrow> json flow" where
  "json_get (JObj kvs) key d = ret (case map_of kvs key of Some v \<Rightarrow> v | None \<Rightarrow> d)"
| "json_get _ key d = throw (Raised AttributeError)"

fun json_str :: "json \<Rightarrow> string flow" where
  "json_str (JStr s) = ret s"
| "json_str _ = throw (Raised AttributeError)"

fun is_obj :: "json \<Rightarrow> bool" where
  "is_obj (JObj kvs) = True"
| "is_obj _ = False"

lemma keeps_json [keeps_intro, simp]: "keeps I (json_get j k d)" "keeps I (json_str j)"
  by (cases j; simp)+

definition quoted :: "string \<Rightarrow> string" where
  "quoted s = [CHR 0x22] @ s @ [CHR 0x22]"

subsection \<open>The configuration in a page\<close>

text \<open>The pattern \<open>\$Config\s*=\s*(\{.+?\});\<close>, in which a dot matches everything.\<close>

definition config_rx :: "rx list" where
  "config_rx = word ''$Config'' @ [spaces, One (\<lambda>c. c = CHR ''=''), spaces,
     Cap [One (\<lambda>c. c = CHR ''{''), Many (\<lambda>c. True) 1 True, One (\<lambda>c. c = CHR ''}'')], One (\<lambda>c. c = CHR '';'')]"

definition parse_entra_config :: "lib \<Rightarrow> string \<Rightarrow> json" where
  "parse_entra_config l html_text =
     (case rx_search config_rx html_text of
        Some (m # gs, rest) \<Rightarrow> (case loads l m of Some j \<Rightarrow> j | None \<Rightarrow> JObj [])
      | _ \<Rightarrow> JObj [])"

subsection \<open>The SAML form at the end\<close>

definition saml_fields :: "form \<Rightarrow> (string \<times> json) list" where
  "saml_fields frm = map (\<lambda>(n, v). (n, opt_json v)) (f_fields frm)"

fun submit_saml :: "lib \<Rightarrow> form list \<Rightarrow> string \<Rightarrow> string \<Rightarrow> string option flow" where
  "submit_saml l [] base name = ret None"
| "submit_saml l (frm # frms) base name =
     (if ''SAMLResponse'' \<notin> fst ` set (saml_fields frm) then submit_saml l frms base name
      else bind_flow (absolute base (if truthy (f_action frm) then the (f_action frm) else base)) (\<lambda>action.
        bind_flow (require_host SamlHost action) (\<lambda>_.
        bind_flow (fetch l (Post action (saml_fields frm))) (\<lambda>resp.
        bind_flow (extract_token resp name) (\<lambda>token.
          if truthy token then ret token else check_cookies_for_token name)))))"

definition submit_saml_response_form :: "lib \<Rightarrow> reply \<Rightarrow> string \<Rightarrow> string option flow" where
  "submit_saml_response_form l resp name =
     bind_flow (lift_py (r_page resp)) (\<lambda>doc. submit_saml l (p_forms doc) (r_url resp) name)"

subsection \<open>WS-Trust\<close>

definition soap_envelope :: "string \<Rightarrow> string \<Rightarrow> string \<Rightarrow> string \<Rightarrow> string" where
  "soap_envelope uuid username password ws_trust_url =
     ''<s:Envelope xmlns:s='' @ quoted ''http://www.w3.org/2003/05/soap-envelope'' @
     '' xmlns:a='' @ quoted ''http://www.w3.org/2005/08/addressing'' @
     '' xmlns:o='' @ quoted ''http://docs.oasis-open.org/wss/2004/01/oasis-200401-wss-wssecurity-secext-1.0.xsd'' @ ''>'' @
     ''<s:Header>'' @
     ''<a:Action s:mustUnderstand='' @ quoted ''1'' @ ''>'' @
     ''http://docs.oasis-open.org/ws-sx/ws-trust/200512/RST/Issue'' @
     ''</a:Action>'' @
     ''<a:MessageID>urn:uuid:'' @ uuid @ ''</a:MessageID>'' @
     ''<a:ReplyTo><a:Address>http://www.w3.org/2005/08/addressing/anonymous'' @
     ''</a:Address></a:ReplyTo>'' @
     ''<a:To s:mustUnderstand='' @ quoted ''1'' @ ''>'' @ html_escape ws_trust_url @ ''</a:To>'' @
     ''<o:Security s:mustUnderstand='' @ quoted ''1'' @ ''>'' @
     ''<o:UsernameToken>'' @
     ''<o:Username>'' @ html_escape username @ ''</o:Username>'' @
     ''<o:Password>'' @ html_escape password @ ''</o:Password>'' @
     ''</o:UsernameToken>'' @
     ''</o:Security>'' @
     ''</s:Header>'' @
     ''<s:Body>'' @
     ''<trust:RequestSecurityToken '' @
     ''xmlns:trust='' @ quoted ''http://docs.oasis-open.org/ws-sx/ws-trust/200512'' @ ''>'' @
     ''<wsp:AppliesTo xmlns:wsp='' @ quoted ''http://schemas.xmlsoap.org/ws/2004/09/policy'' @ ''>'' @
     ''<wsa:EndpointReference '' @
     ''xmlns:wsa='' @ quoted ''http://www.w3.org/2005/08/addressing'' @ ''>'' @
     ''<wsa:Address>urn:federation:MicrosoftOnline</wsa:Address>'' @
     ''</wsa:EndpointReference>'' @
     ''</wsp:AppliesTo>'' @
     ''<trust:KeyType>'' @
     ''http://docs.oasis-open.org/ws-sx/ws-trust/200512/Bearer'' @
     ''</trust:KeyType>'' @
     ''<trust:RequestType>'' @
     ''http://docs.oasis-open.org/ws-sx/ws-trust/200512/Issue'' @
     ''</trust:RequestType>'' @
     ''</trust:RequestSecurityToken>'' @
     ''</s:Body>'' @
     ''</s:Envelope>''"

definition realm_url :: "string \<Rightarrow> string" where
  "realm_url user = ''https://login.microsoftonline.com/getuserrealm.srf?login='' @ quote_plus user @ ''&xml=0''"

definition login_srf :: string where
  "login_srf = ''https://login.microsoftonline.com/login.srf''"

definition wresult :: "string \<Rightarrow> string" where
  "wresult assertion_xml =
     ''<t:RequestSecurityTokenResponse xmlns:t='' @ quoted ''http://schemas.xmlsoap.org/ws/2005/02/trust'' @ ''>''
     @ assertion_xml @ ''</t:RequestSecurityTokenResponse>''"

text \<open>Where the credentials go: the endpoint that realm discovery names, over HTTPS and on the whitelist.\<close>

definition ws_trust_endpoint :: "lib \<Rightarrow> string \<Rightarrow> string flow" where
  "ws_trust_endpoint l user =
     bind_flow (require_host RealmHost (realm_url user)) (\<lambda>_.
     bind_flow (fetch l (Get (realm_url user) [])) (\<lambda>realm_resp.
     bind_flow (lift_py (r_json realm_resp)) (\<lambda>realm.
     bind_flow (json_get realm ''AuthURL'' JNull) (\<lambda>u1.
     bind_flow (if json_true u1 then ret u1 else json_get realm ''auth_url'' JNull) (\<lambda>u2.
     bind_flow (guard (json_true u2) (throw (HeadlessAuthError NoAuthUrl))) (\<lambda>_.
     bind_flow (json_str u2) (\<lambda>url.
     bind_flow (lift_py (urlparse url [])) (\<lambda>p.
     bind_flow (guard (u_scheme p = ''https'') (throw (HeadlessAuthError NotHttps))) (\<lambda>_.
     bind_flow (require_host WsTrustHost url) (\<lambda>_.
     ret url))))))))))"

text \<open>The first nonempty text of a fault.\<close>

definition fault_text :: "string option list \<Rightarrow> string" where
  "fault_text faults = (case find truthy faults of Some (Some t) \<Rightarrow> t | _ \<Rightarrow> ''no fault text'')"

definition read_assertion :: "reply \<Rightarrow> string flow" where
  "read_assertion resp =
     (case r_xml resp of
        None \<Rightarrow> throw (HeadlessAuthError InvalidXml)
      | Some doc \<Rightarrow>
          (case x_assertions doc of
             [] \<Rightarrow> throw (HeadlessAuthError (AdfsRejected (fault_text (x_faults doc))))
           | a # as \<Rightarrow> ret a))"

text \<open>The envelope goes out without following redirects; the assertion of the answer goes to Microsoft.\<close>

definition exchange_assertion :: "lib \<Rightarrow> string \<Rightarrow> string \<Rightarrow> string \<Rightarrow> reply flow" where
  "exchange_assertion l username password url =
     bind_flow (ask trace) (\<lambda>h.
     bind_flow (send l (PostSoap url (soap_envelope (uuid4 l h) username password url))) (\<lambda>wst.
     bind_flow (guard (\<not> (300 \<le> r_status wst \<and> r_status wst < 400)) (throw (HeadlessAuthError (WsTrustRedirect (r_status wst))))) (\<lambda>_.
     bind_flow (raise_for_status wst) (\<lambda>_.
     bind_flow (read_assertion wst) (\<lambda>assertion_xml.
     bind_flow (require_host LoginSrfHost login_srf) (\<lambda>_.
     send l (Post login_srf [(''wa'', JStr ''wsignin1.0''), (''wresult'', JStr (wresult assertion_xml)), (''wctx'', JStr [])])))))))"

definition authenticate_via_ws_trust :: "lib \<Rightarrow> string \<Rightarrow> string \<Rightarrow> reply flow" where
  "authenticate_via_ws_trust l username password =
     bind_flow (ws_trust_endpoint l username) (\<lambda>url. exchange_assertion l username password url)"

subsection \<open>The flow\<close>

definition extend_entra :: "unit flow" where
  "extend_entra = change (\<lambda>s. s\<lparr>allowed := map_option (\<lambda>al. fold add_host ENTRA_HOSTS al) (allowed s)\<rparr>)"

text \<open>The payloads.\<close>

definition gct_payload :: "string \<Rightarrow> json \<Rightarrow> json \<Rightarrow> json \<Rightarrow> json" where
  "gct_payload username sCtx country sFT = JObj
     [(''username'', JStr username), (''isOtherIdpSupported'', JBool True), (''checkPhones'', JBool False),
      (''isRemoteNGCSupported'', JBool True), (''isCookieBannerShown'', JBool False), (''isFidoSupported'', JBool True),
      (''originalRequest'', sCtx), (''country'', country), (''forceotclogin'', JBool False),
      (''isExternalFederationDisallowed'', JBool False), (''isRemoteConnectSupported'', JBool False),
      (''federationFlags'', JNum 0), (''isSignup'', JBool False), (''flowToken'', sFT)]"

definition login_payload :: "string \<Rightarrow> string \<Rightarrow> json \<Rightarrow> json \<Rightarrow> json \<Rightarrow> json \<Rightarrow> (string \<times> json) list" where
  "login_payload username password canary sCtx session_id flow_token =
     [(''i13'', JStr ''0''), (''login'', JStr username), (''loginfmt'', JStr username), (''type'', JStr ''11''),
      (''LoginOptions'', JStr ''3''), (''lrt'', JStr []), (''lrtPartition'', JStr []), (''hisRegion'', JStr []),
      (''hisScaleUnit'', JStr []), (''passwd'', JStr password), (''ps'', JStr ''2''), (''psRNGCDefaultType'', JStr []),
      (''psRNGCSLK'', JStr []), (''canary'', canary), (''ctx'', sCtx), (''hpgrequestid'', session_id),
      (''flowToken'', flow_token), (''PPSX'', JStr []), (''NewUser'', JStr ''1''), (''FoundMSAs'', JStr []),
      (''fspost'', JStr ''0''), (''i21'', JStr ''0''), (''CookieDisclosure'', JStr ''0''), (''IsFidoSupported'', JStr ''1''),
      (''isSignupPost'', JStr ''0''), (''i19'', JStr ''1'')]"

definition otc_payload :: "json \<Rightarrow> string \<Rightarrow> string \<Rightarrow> json \<Rightarrow> json \<Rightarrow> json \<Rightarrow> (string \<times> json) list" where
  "otc_payload ctx totp username flow_token session_id canary =
     [(''type'', JStr ''22''), (''request'', ctx), (''mfaAuthMethod'', JStr ''PhoneAppOTP''), (''otc'', JStr totp),
      (''login'', JStr username), (''flowToken'', flow_token), (''hpgrequestid'', session_id), (''canary'', canary),
      (''i19'', JStr ''1'')]"

definition kmsi_payload :: "json \<Rightarrow> json \<Rightarrow> json \<Rightarrow> json \<Rightarrow> (string \<times> json) list" where
  "kmsi_payload ctx session_id flow_token canary =
     [(''LoginOptions'', JStr ''3''), (''type'', JStr ''28''), (''ctx'', ctx), (''hpgrequestid'', session_id),
      (''flowToken'', flow_token), (''canary'', canary), (''i2'', JStr ''1''), (''i17'', JStr []), (''i18'', JStr []),
      (''i19'', JStr ''1'')]"

text \<open>What the text of a page says.\<close>

definition says_rejected :: "string \<Rightarrow> bool" where
  "says_rejected t \<longleftrightarrow> sublist ''Your account or password is incorrect'' t
     \<or> sublist ''is not a valid email address'' t \<or> sublist (quoted ''sErrorCode'' @ '':'' @ quoted ''50126'') t"

definition asks_otc :: "string \<Rightarrow> bool" where
  "asks_otc t \<longleftrightarrow> sublist ''/common/SAS/'' t \<or> sublist ''OneWaySMS'' t \<or> sublist (quoted ''sPollingUrl'') t
     \<or> sublist (quoted ''sasPostUrl'') t \<or> sublist ''idTxtBx_SAOTCC_OTC'' t"

definition asks_kmsi :: "string \<Rightarrow> bool" where
  "asks_kmsi t \<longleftrightarrow> sublist ''Kmsi'' t \<or> sublist ''Stay signed in'' t"

definition needs_browser :: "string \<Rightarrow> bool" where
  "needs_browser t \<longleftrightarrow> sublist ''FIDO'' t \<or> sublist ''passkey'' (lower t) \<or> sublist ''phoneAppNotification'' t
     \<or> sublist ''ConvergedProofUpRedirect'' t"

text \<open>\<open>urlPost\<close> of a configuration, made absolute and checked.\<close>

definition checked_post_url :: "json \<Rightarrow> string \<Rightarrow> string flow \<Rightarrow> string flow" where
  "checked_post_url cfg base fallback =
     bind_flow (json_get cfg ''urlPost'' JNull) (\<lambda>u.
     bind_flow (if json_true u then json_str u else fallback) (\<lambda>u1.
     bind_flow (absolute base u1) (\<lambda>url_post.
     bind_flow (require_host UrlPostHost url_post) (\<lambda>_.
     ret url_post))))"

text \<open>One step after the password: the token, or the next reply and flow token.\<close>

definition entra_step :: "lib \<Rightarrow> string \<Rightarrow> string option \<Rightarrow> string \<Rightarrow> nat \<Rightarrow> reply \<times> json \<Rightarrow> (string + reply \<times> json) flow" where
  "entra_step l username totp name n st =
     (case st of (resp, flow_token) \<Rightarrow>
        bind_flow (submit_saml_response_form l resp name) (\<lambda>saml_token.
        if truthy saml_token then ret (Inl (the saml_token))
        else bind_flow (guard (\<not> says_rejected (r_text resp)) (throw (HeadlessAuthError MicrosoftRejected))) (\<lambda>_.
        bind_flow (require_host LandedOutside (r_url resp)) (\<lambda>_.
        let cfg = parse_entra_config l (r_text resp); page_text = r_text resp in
        bind_flow (checked_post_url cfg (r_url resp) (ret (r_url resp))) (\<lambda>url_post.
        bind_flow (json_get cfg ''sFT'' flow_token) (\<lambda>flow_token1.
        bind_flow (json_get cfg ''sCtx'' (JStr [])) (\<lambda>ctx.
        bind_flow (json_get cfg ''sessionId'' (JStr [])) (\<lambda>session_id.
        bind_flow (json_get cfg ''canary'' (JStr [])) (\<lambda>canary.
        if truthy totp \<and> asks_otc page_text then
          bind_flow (fetch l (Post url_post (otc_payload ctx (the totp) username flow_token1 session_id canary))) (\<lambda>resp1.
          ret (Inr (resp1, flow_token1)))
        else if asks_kmsi page_text then
          bind_flow (fetch l (Post url_post (kmsi_payload ctx session_id flow_token1 canary))) (\<lambda>resp1.
          ret (Inr (resp1, flow_token1)))
        else if sublist ''BeginAuth'' page_text \<and> \<not> truthy totp then throw (HeadlessAuthError MfaWithoutTotp)
        else if needs_browser page_text then throw (HeadlessAuthError InteractiveMfa)
        else throw (HeadlessAuthError (UnexpectedPage n)))))))))))"

text \<open>The steps number \<open>n\<close>, \<open>n + 1\<close>, and so on, \<open>k\<close> of them.\<close>

fun entra_loop :: "lib \<Rightarrow> string \<Rightarrow> string option \<Rightarrow> string \<Rightarrow> nat \<Rightarrow> nat \<Rightarrow> reply \<times> json \<Rightarrow> string flow" where
  "entra_loop l username totp name n 0 st = throw (HeadlessAuthError StepBudget)"
| "entra_loop l username totp name n (Suc k) st =
     bind_flow (entra_step l username totp name n st) (\<lambda>r.
       case r of Inl token \<Rightarrow> ret token | Inr st1 \<Rightarrow> entra_loop l username totp name (Suc n) k st1)"

definition entra_steps :: nat where
  "entra_steps = 8"

text \<open>The question which kind of credential the account has, and \<open>creds\<close> of the answer.\<close>

definition probe_credential_type :: "lib \<Rightarrow> string \<Rightarrow> reply \<Rightarrow> json \<Rightarrow> (json \<times> json) flow" where
  "probe_credential_type l username resp cfg =
     bind_flow (lift_py (urljoin (r_url resp) ''/common/GetCredentialType'')) (\<lambda>gct_url.
     bind_flow (require_host GctHost gct_url) (\<lambda>_.
     bind_flow (json_get cfg ''sCtx'' (JStr [])) (\<lambda>sCtx.
     bind_flow (json_get cfg ''country'' (JStr [])) (\<lambda>country.
     bind_flow (json_get cfg ''sFT'' (JStr [])) (\<lambda>sFT.
     bind_flow (json_get cfg ''canary'' (JStr [])) (\<lambda>canary.
     bind_flow (fetch l (PostJson gct_url (gct_payload username sCtx country sFT) canary)) (\<lambda>gct_resp.
     bind_flow (lift_py (r_json gct_resp)) (\<lambda>gct.
     bind_flow (if is_obj gct then json_get gct ''Credentials'' (JObj []) else ret (JObj [])) (\<lambda>creds.
     ret (gct, creds))))))))))"

text \<open>A federated tenant.\<close>

definition federated_login :: "lib \<Rightarrow> string \<Rightarrow> string \<Rightarrow> string \<Rightarrow> string flow" where
  "federated_login l username password name =
     bind_flow (authenticate_via_ws_trust l username password) (\<lambda>resp.
     bind_flow (submit_saml_response_form l resp name) (\<lambda>saml_token.
       if truthy saml_token then ret (the saml_token) else throw (HeadlessAuthError NoSamlForm)))"

text \<open>User name and password.\<close>

definition post_password :: "lib \<Rightarrow> string \<Rightarrow> string \<Rightarrow> reply \<Rightarrow> json \<Rightarrow> json \<Rightarrow> (reply \<times> json) flow" where
  "post_password l username password resp cfg gct =
     bind_flow (json_get gct ''FlowToken'' JNull) (\<lambda>ft.
     bind_flow (if json_true ft then ret ft else json_get cfg ''sFT'' (JStr [])) (\<lambda>flow_token.
     bind_flow (checked_post_url cfg (r_url resp) (lift_py (urljoin (r_url resp) ''/common/login''))) (\<lambda>url_post.
     bind_flow (json_get cfg ''canary'' (JStr [])) (\<lambda>canary.
     bind_flow (json_get cfg ''sCtx'' (JStr [])) (\<lambda>sCtx.
     bind_flow (json_get cfg ''sessionId'' (JStr [])) (\<lambda>session_id.
     bind_flow (fetch l (Post url_post (login_payload username password canary sCtx session_id flow_token))) (\<lambda>resp1.
     ret (resp1, flow_token))))))))"

definition entra_login :: "lib \<Rightarrow> creds \<Rightarrow> string \<Rightarrow> string option \<Rightarrow> reply \<Rightarrow> string flow" where
  "entra_login l c name totp resp =
     (let cfg = parse_entra_config l (r_text resp) in
      bind_flow (probe_credential_type l (c_username c) resp cfg) (\<lambda>(gct, creds).
      bind_flow (json_get creds ''FederationRedirectUrl'' JNull) (\<lambda>federation.
      if json_true federation then federated_login l (c_username c) (c_password c) name
      else bind_flow (json_get creds ''HasPassword'' JNull) (\<lambda>has_password.
        bind_flow (guard (has_password \<noteq> JBool False) (throw (HeadlessAuthError NoPassword))) (\<lambda>_.
        bind_flow (post_password l (c_username c) (c_password c) resp cfg gct) (\<lambda>st.
        entra_loop l (c_username c) totp name 0 entra_steps st))))))"

definition auto_authenticate_entra :: "lib \<Rightarrow> creds \<Rightarrow> string \<Rightarrow> string \<Rightarrow> string \<Rightarrow> string flow" where
  "auto_authenticate_entra l c login_url login_final_url name =
     bind_flow (extend_allowed login_url) (\<lambda>_.
     bind_flow (extend_allowed login_final_url) (\<lambda>_.
     bind_flow extend_entra (\<lambda>_.
     bind_flow (guard (c_username c \<noteq> [] \<and> c_password c \<noteq> []) (throw (HeadlessAuthError NeedsBoth))) (\<lambda>_.
     bind_flow (ask clock) (\<lambda>now.
     bind_flow (fetch l (Get login_url [])) (\<lambda>resp.
     bind_flow (require_host LandedOutside (r_url resp)) (\<lambda>_.
     entra_login l c name (local_totp l now) resp)))))))"

subsection \<open>Where the requests go\<close>

definition is_https :: "string \<Rightarrow> bool" where
  "is_https u = (case urlparse u [] of Inr p \<Rightarrow> u_scheme p = ''https'' | Inl e \<Rightarrow> False)"

text \<open>A request to an allowed host, and for the SOAP envelope over HTTPS.\<close>

fun okay :: "string list option \<Rightarrow> request \<Rightarrow> bool" where
  "okay A (PostSoap u b) \<longleftrightarrow> host_allowed A u \<and> is_https u"
| "okay A q \<longleftrightarrow> host_allowed A (target q)"

text \<open>Since the trace was \<open>h\<close>, only such requests were sent.\<close>

definition only_allowed :: "string list option \<Rightarrow> request list \<Rightarrow> sess \<Rightarrow> bool" where
  "only_allowed A h s \<longleftrightarrow> allowed s = A \<and> (\<exists>qs. trace s = h @ qs \<and> (\<forall>q\<in>set qs. okay A q))"

lemma only_allowed_jar [simp]: "only_allowed A h (s\<lparr>jar := j\<rparr>) = only_allowed A h s"
  by (simp add: only_allowed_def)

lemma only_allowed_send: "okay A q \<Longrightarrow> only_allowed A h s \<Longrightarrow> only_allowed A h (snd (send l q s))"
  by (auto simp: only_allowed_def)

lemma keeps_allowed_fetch: "okay A q \<Longrightarrow> keeps (only_allowed A h) (fetch l q)"
  by (intro keeps_fetch only_allowed_send)

lemma keeps_allowed_send: "okay A q \<Longrightarrow> keeps (only_allowed A h) (send l q)"
  by (intro keepsI only_allowed_send)

lemma keeps_checked:
  assumes "host_allowed A u \<Longrightarrow> keeps (only_allowed A h) (f ())"
  shows "keeps (only_allowed A h) (bind_flow (require_host w u) f)"
proof (rule keepsI)
  fix s assume s: "only_allowed A h s"
  then show "only_allowed A h (snd (bind_flow (require_host w u) f s))"
    using keeps_snd [OF assms s] by (auto simp: bind_flow_def require_host_cases only_allowed_def)
qed

text \<open>Composition with what the first part returns.\<close>

lemma keeps_bind_result:
  assumes "keeps I m" "\<And>s x t. I s \<Longrightarrow> m s = (Inr x, t) \<Longrightarrow> keeps I (f x)"
  shows "keeps I (bind_flow m f)"
proof (rule keepsI)
  fix s assume s: "I s"
  obtain r t where m: "m s = (r, t)" by fastforce
  from keepsD [OF assms(1) s m] assms(2) [OF s] m show "I (snd (bind_flow m f s))"
    by (cases r) (auto simp: bind_flow_def intro: keeps_snd)
qed

lemma submit_saml_allowed: "keeps (only_allowed A h) (submit_saml l frms base name)"
proof (induction l frms base name rule: submit_saml.induct)
  case (2 l frm frms base name)
  then show ?case
    unfolding submit_saml.simps
    by (intro keeps_if keeps_bind keeps_checked keeps_reading keeps_allowed_fetch) (auto intro!: keeps_intro)
qed simp

lemma saml_response_allowed [keeps_intro]: "keeps (only_allowed A h) (submit_saml_response_form l resp name)"
  unfolding submit_saml_response_form_def by (intro keeps_bind keeps_basic submit_saml_allowed)

text \<open>The checked URLs are allowed; finding them changes nothing but the trace.\<close>

lemma checked_post_url_ok:
  assumes "checked_post_url cfg base fallback s = (Inr url, t)" "\<And>s. snd (fallback s) = s"
  shows "t = s \<and> host_allowed (allowed s) url"
proof -
  have p: "snd (json_get j k d s) = s" "snd (json_str j s) = s" for j k d s by (cases j; simp add: flow_simps)+
  show ?thesis using assms p
    by (auto simp: checked_post_url_def bind_flow_Inr require_host_cases ret_def split: if_splits)
      (metis p(2) pure_absolute snd_conv)+
qed

lemma ws_trust_endpoint_ok:
  assumes "ws_trust_endpoint l user s = (Inr url, t)"
  shows "host_allowed (allowed t) url \<and> is_https url"
  using assms
  by (auto simp: ws_trust_endpoint_def bind_flow_Inr require_host_cases guard_def ret_def throw_def lift_py_def is_https_def
      split: if_splits sum.splits)

lemma ws_trust_endpoint_allowed: "keeps (only_allowed A h) (ws_trust_endpoint l user)"
  unfolding ws_trust_endpoint_def
  by (intro keeps_checked keeps_bind keeps_allowed_fetch keeps_guard keeps_if keeps_basic keeps_json) simp_all

lemma checked_post_url_pure:
  "(\<And>s. snd (fallback s) = s) \<Longrightarrow> snd (checked_post_url cfg base fallback s) = s"
proof -
  have p: "snd (json_get j k d s) = s" "snd (json_str j s) = s" "snd (require_host w u s) = s" for j k d w u s
    by (cases j; simp add: flow_simps require_host_cases)+
  assume "\<And>s. snd (fallback s) = s"
  then show ?thesis unfolding checked_post_url_def by (intro pure_bind) (simp_all add: p)
qed

lemma exchange_assertion_allowed:
  "host_allowed A url \<Longrightarrow> is_https url \<Longrightarrow> keeps (only_allowed A h) (exchange_assertion l username password url)"
  unfolding exchange_assertion_def raise_for_status_def read_assertion_def
  by (intro keeps_checked keeps_bind keeps_allowed_send keeps_guard keeps_basic)
    (auto intro!: keeps_basic split: option.split list.split)

lemma via_ws_trust_allowed: "keeps (only_allowed A h) (authenticate_via_ws_trust l username password)"
  unfolding authenticate_via_ws_trust_def
proof (rule keeps_bind_result [OF ws_trust_endpoint_allowed])
  fix s x t assume s: "only_allowed A h s" and w: "ws_trust_endpoint l username s = (Inr x, t)"
  from keepsD [OF ws_trust_endpoint_allowed s w] have "allowed t = A" by (simp add: only_allowed_def)
  with ws_trust_endpoint_ok [OF w] show "keeps (only_allowed A h) (exchange_assertion l username password x)"
    by (auto intro: exchange_assertion_allowed)
qed

lemma keeps_checked_post:
  assumes "\<And>s. snd (fallback s) = s" "\<And>url. host_allowed A url \<Longrightarrow> keeps (only_allowed A h) (f url)"
  shows "keeps (only_allowed A h) (bind_flow (checked_post_url cfg base fallback) f)"
proof (rule keeps_bind_result)
  show "keeps (only_allowed A h) (checked_post_url cfg base fallback)"
    using checked_post_url_pure [OF assms(1)] by (rule keeps_pure)
  fix s x t assume "only_allowed A h s" "checked_post_url cfg base fallback s = (Inr x, t)"
  then show "keeps (only_allowed A h) (f x)"
    using checked_post_url_ok [OF _ assms(1)] assms(2) by (auto simp: only_allowed_def)
qed

lemma entra_step_allowed: "keeps (only_allowed A h) (entra_step l username totp name n st)"
  unfolding entra_step_def Let_def
  by (intro keeps_prod keeps_bind saml_response_allowed keeps_if keeps_basic keeps_guard keeps_require_host keeps_checked_post
      keeps_json keeps_allowed_fetch) simp_all

lemma entra_loop_allowed: "keeps (only_allowed A h) (entra_loop l username totp name n k st)"
  by (induction k arbitrary: n st) (auto intro!: keeps_intro entra_step_allowed)

lemma federated_allowed: "keeps (only_allowed A h) (federated_login l username password name)"
  unfolding federated_login_def
  by (intro keeps_bind via_ws_trust_allowed saml_response_allowed keeps_if keeps_basic)

lemma probe_allowed: "keeps (only_allowed A h) (probe_credential_type l username resp cfg)"
  unfolding probe_credential_type_def
  by (intro keeps_checked keeps_bind keeps_allowed_fetch keeps_if keeps_basic keeps_json) simp_all

lemma post_password_allowed: "keeps (only_allowed A h) (post_password l username password resp cfg gct)"
  unfolding post_password_def
  by (intro keeps_checked_post keeps_bind keeps_allowed_fetch keeps_if keeps_basic keeps_json) simp_all

lemma entra_login_allowed: "keeps (only_allowed A h) (entra_login l c name totp resp)"
  unfolding entra_login_def Let_def
  by (intro keeps_bind keeps_prod probe_allowed keeps_json keeps_if keeps_guard keeps_basic federated_allowed
      post_password_allowed entra_loop_allowed)

text \<open>The head of the flow: the whitelist is set up, the login page is read.\<close>

lemma entra_cases:
  assumes "auto_authenticate_entra l c login_url fin name s = (r, t)"
  obtains (early) e where "r = Inl e" "trace t = trace s \<or> trace t = trace s @ [Get login_url []]"
  | (login) resp s1 where "trace s1 = trace s @ [Get login_url []]" "host_allowed (allowed s1) (r_url resp)"
      "entra_login l c name (local_totp l (clock s)) resp s1 = (r, t)"
proof -
  obtain x1 a where 1: "extend_allowed login_url s = (x1, a)" by fastforce
  obtain x2 b where 2: "extend_allowed fin a = (x2, b)" by fastforce
  obtain x3 d where 3: "extend_entra b = (x3, d)" by fastforce
  have tr: "trace a = trace s" "trace b = trace s" "trace d = trace s" "clock d = clock s" "x3 = Inr ()"
    using extend_allowed_trace [of login_url s] extend_allowed_trace [of fin a] 1 2 3
      extend_allowed_clock [of login_url s] extend_allowed_clock [of fin a] by (auto simp: extend_entra_def change_def)
  obtain x4 f where 4: "fetch l (Get login_url []) d = (x4, f)" by fastforce
  have f: "trace f = trace s @ [Get login_url []]" using fetch_trace [of l "Get login_url []" d] 4 tr by simp
  show thesis
  proof (cases "\<exists>u v w. x1 = Inr u \<and> x2 = Inr v \<and> c_username c \<noteq> [] \<and> c_password c \<noteq> [] \<and> x4 = Inr w \<and> host_allowed (allowed f) (r_url w)")
    case False
    then have "\<exists>e. r = Inl e \<and> (trace t = trace s \<or> trace t = trace s @ [Get login_url []])"
      using assms 1 2 3 4 tr f
      by (auto simp: auto_authenticate_entra_def bind_flow_def require_host_cases guard_def throw_def ret_def ask_def split: sum.splits if_splits)
    then show thesis using early by blast
  next
    case True
    then obtain u v w where "x1 = Inr u" "x2 = Inr v" "c_username c \<noteq> []" "c_password c \<noteq> []" "x4 = Inr w" "host_allowed (allowed f) (r_url w)"
      by blast
    moreover from this have "entra_login l c name (local_totp l (clock s)) w f = (r, t)"
      using assms 1 2 3 4 tr by (simp add: auto_authenticate_entra_def bind_flow_def require_host_cases guard_def ret_def ask_def)
    ultimately show thesis using f by (intro login) auto
  qed
qed


subsection \<open>How many requests\<close>

definition at_most :: "nat \<Rightarrow> 'a flow \<Rightarrow> bool" where
  "at_most n m \<longleftrightarrow> (\<forall>s. length (trace (snd (m s))) \<le> length (trace s) + n)"

lemma at_most_bind: "at_most n m \<Longrightarrow> (\<And>x. at_most k (f x)) \<Longrightarrow> at_most (n + k) (bind_flow m f)"
proof -
  assume m: "at_most n m" and f: "\<And>x. at_most k (f x)"
  have "length (trace (snd (bind_flow m f s))) \<le> length (trace s) + (n + k)" for s
  proof (cases "m s")
    case (Pair r s1)
    have "length (trace s1) \<le> length (trace s) + n" using m Pair unfolding at_most_def by (metis snd_conv)
    moreover have "length (trace (snd (f x s1))) \<le> length (trace s1) + k" for x using f unfolding at_most_def by blast
    then have "length (trace (snd (f x s1))) \<le> length (trace s1) + k" for x .
    ultimately have "length (trace (snd (f x s1))) \<le> length (trace s) + (n + k)" for x
      by (metis add.assoc add_le_cancel_right order_trans)
    then show ?thesis using Pair \<open>length (trace s1) \<le> _\<close> by (cases r) (auto simp: bind_flow_def)
  qed
  then show ?thesis by (simp add: at_most_def)
qed

lemma at_most_mono: "at_most n m \<Longrightarrow> n \<le> k \<Longrightarrow> at_most k m"
  unfolding at_most_def by (meson add_left_mono order_trans)

lemma at_most_pure: "(\<And>s. snd (m s) = s) \<Longrightarrow> at_most n m"
  by (simp add: at_most_def)

lemma at_most_first: "at_most 1 m \<Longrightarrow> (\<And>x. at_most k (f x)) \<Longrightarrow> at_most (Suc k) (bind_flow m f)"
  using at_most_bind [of 1 m k f] by simp

lemma at_most_skip: "(\<And>s. snd (m s) = s) \<Longrightarrow> (\<And>x. at_most k (f x)) \<Longrightarrow> at_most k (bind_flow m f)"
  using at_most_bind [of 0 m k f] at_most_pure [of m 0] by simp

lemma at_most_if: "(b \<Longrightarrow> at_most k m) \<Longrightarrow> (\<not> b \<Longrightarrow> at_most k n) \<Longrightarrow> at_most k (if b then m else n)"
  by simp

lemma at_most_send: "at_most 1 (send l q)" "at_most 1 (fetch l q)"
  by (simp_all add: at_most_def fetch_trace)

lemma at_most_0 [simp]: "at_most k (ret x)" "at_most k (throw e)"
  by (simp_all add: at_most_pure)

lemma pure_json [simp]: "snd (json_get j k d s) = s" "snd (json_str j s) = s" "snd (require_host w u s) = s"
  by (cases j; simp add: require_host_cases)+

lemma pure_guard [simp]: "(\<And>s. snd (m s) = s) \<Longrightarrow> snd (guard b m s) = s"
  by (simp add: guard_def)

lemma pure_read_assertion [simp]: "snd (read_assertion r s) = s"
  by (simp add: read_assertion_def split: option.split list.split)

lemma fetch_last:
  assumes "\<And>x. at_most 0 (f x)"
  shows "at_most 1 (bind_flow (fetch l q) f)"
  using at_most_bind [OF at_most_send(2) assms] by simp

lemma submit_saml_at_most: "at_most 1 (submit_saml l frms base name)"
proof (induction l frms base name rule: submit_saml.induct)
  case (2 l frm frms base name)
  have "at_most 0 (bind_flow (extract_token resp name) (\<lambda>token. if truthy token then ret token else check_cookies_for_token name))" for resp
    by (intro at_most_skip at_most_if at_most_0 at_most_pure) simp_all
  from fetch_last [OF this] have f: "at_most 1 (bind_flow (fetch l q) (\<lambda>resp. bind_flow (extract_token resp name)
      (\<lambda>token. if truthy token then ret token else check_cookies_for_token name)))" for q .
  with 2 show ?case
    unfolding submit_saml.simps by (intro at_most_if at_most_skip [OF pure_absolute] at_most_skip [OF pure_json(3)] f) auto
qed simp

lemma saml_response_at_most: "at_most 1 (submit_saml_response_form l resp name)"
  unfolding submit_saml_response_form_def by (intro at_most_skip submit_saml_at_most) simp

lemma ws_trust_at_most: "at_most 3 (authenticate_via_ws_trust l username password)"
proof -
  have "at_most 1 (ws_trust_endpoint l username)"
    unfolding ws_trust_endpoint_def by (intro at_most_skip fetch_last) simp_all
  moreover have "at_most 2 (exchange_assertion l username password url)" for url
  proof -
    have tail: "at_most 1 (bind_flow (guard b (throw e)) (\<lambda>_. bind_flow (raise_for_status wst) (\<lambda>_. bind_flow (read_assertion wst) (\<lambda>a.
       bind_flow (require_host w u) (\<lambda>_. send l (q a))))))" for b e wst w u q
      by (intro at_most_skip at_most_send) (simp_all add: raise_for_status_def)
    have "at_most (0 + (1 + 1)) (exchange_assertion l username password url)"
      unfolding exchange_assertion_def by (rule at_most_bind [OF at_most_pure], simp, rule at_most_bind [OF at_most_send(1) tail])
    then show ?thesis by (simp add: numeral_2_eq_2)
  qed
  ultimately have "at_most (1 + 2) (authenticate_via_ws_trust l username password)"
    unfolding authenticate_via_ws_trust_def by (rule at_most_bind)
  then show ?thesis by (rule at_most_mono) simp
qed

lemma entra_loop_at_most: "at_most (2 * k) (entra_loop l username totp name n k st)"
proof (induction k arbitrary: n st)
  case (Suc k)
  have "at_most 2 (entra_step l username totp name n st)"
    unfolding entra_step_def Let_def numeral_2_eq_2 case_prod_beta
    by (intro at_most_first [OF saml_response_at_most] at_most_if at_most_0 at_most_skip fetch_last [unfolded One_nat_def]
        checked_post_url_pure pure_json pure_guard pure_basic)
  moreover have "at_most (2 * k) (case r of Inl token \<Rightarrow> ret token | Inr st1 \<Rightarrow> entra_loop l username totp name (Suc n) k st1)" for r
    using Suc by (simp split: sum.split)
  ultimately have "at_most (2 + 2 * k) (entra_loop l username totp name n (Suc k) st)"
    unfolding entra_loop.simps by (rule at_most_bind)
  then show ?case by simp
qed simp

text \<open>
  The Entra login ends after at most 19 requests.
\<close>

theorem entra_requests_bounded:
  "length (trace (snd (auto_authenticate_entra l c login_url fin name s))) \<le> length (trace s) + 19"
proof -
  have fed: "at_most 17 (federated_login l u p name)" for u p
    unfolding federated_login_def
    by (rule at_most_mono [OF at_most_bind [OF ws_trust_at_most at_most_bind [OF saml_response_at_most, where k = 0]]]) auto
  have pw: "at_most 1 (post_password l u p resp cfg gct)" for u p resp cfg gct
    unfolding post_password_def
    by (intro at_most_skip fetch_last at_most_0 checked_post_url_pure pure_json pure_basic) simp_all
  have "at_most 1 (probe_credential_type l u resp cfg)" for u resp cfg
    unfolding probe_credential_type_def by (intro at_most_skip fetch_last) simp_all
  moreover have pl: "at_most 17 (bind_flow (post_password l u p resp cfg gct) (\<lambda>st. entra_loop l u totp name 0 entra_steps st))" for u p totp resp cfg gct
    using at_most_bind [OF pw entra_loop_at_most [of entra_steps]] by (simp add: entra_steps_def)
  moreover from pl have "at_most 17 (bind_flow (json_get creds ''FederationRedirectUrl'' JNull) (\<lambda>federation.
      if json_true federation then federated_login l (c_username c) (c_password c) name
      else bind_flow (json_get creds ''HasPassword'' JNull) (\<lambda>has_password.
        bind_flow (guard (has_password \<noteq> JBool False) (throw (HeadlessAuthError NoPassword))) (\<lambda>_.
        bind_flow (post_password l (c_username c) (c_password c) resp cfg gct) (\<lambda>st.
        entra_loop l (c_username c) totp name 0 entra_steps st)))))" for creds resp cfg gct totp
    by (intro at_most_skip [OF pure_json(1)] at_most_if fed at_most_skip [OF pure_guard] pl) simp
  ultimately have "at_most (1 + 17) (entra_login l c name totp resp)" for totp resp
    unfolding entra_login_def Let_def case_prod_beta by (intro at_most_bind) simp_all
  then have log: "at_most 18 (entra_login l c name totp resp)" for totp resp by simp
  obtain r t where a: "auto_authenticate_entra l c login_url fin name s = (r, t)" by fastforce
  then have "length (trace t) \<le> length (trace s) + 19"
  proof (cases rule: entra_cases)
    case (login resp s1)
    then show ?thesis using log [of "local_totp l (clock s)" resp] unfolding at_most_def by (auto dest!: spec [of _ s1])
  qed auto
  with a show ?thesis by simp
qed

subsection \<open>The server's clock\<close>

lemma side_offset_basic [para_intro]:
  "sideways but_offset (check_cookies_for_token name)" "sideways but_offset (absolute b u)"
  "sideways but_offset (json_get j k d)" "sideways but_offset (json_str j)" "sideways but_offset (ask clock)"
  "sideways but_offset (ask trace)" "sideways but_offset extend_entra" "sideways but_offset (send l q)"
proof -
  show "sideways but_offset (check_cookies_for_token name)" "sideways but_offset (ask clock)" "sideways but_offset (ask trace)"
    unfolding check_cookies_for_token_def by (auto intro!: sideways_ask simp: but_sess)
  show "sideways but_offset (absolute b u)" by (simp add: absolute_def)
  show "sideways but_offset (json_get j k d)" "sideways but_offset (json_str j)" by (cases j; simp)+
  show "sideways but_offset extend_entra" unfolding extend_entra_def by (rule sideways_change) (simp add: but_sess)
  show "sideways but_offset (send l q)" by (rule sideways_send(2))
qed

lemma side_offset_saml [para_intro]: "sideways but_offset (submit_saml_response_form l resp name)"
proof -
  have "sideways but_offset (submit_saml l frms base name)" for frms base
    by (induction l frms base name rule: submit_saml.induct)
      (auto intro!: para_intro sideways_fetch simp: extract_token_def split: option.split)
  then show ?thesis unfolding submit_saml_response_form_def by (intro para_intro)
qed

lemma side_offset_entra [para_intro]: "sideways but_offset (entra_login l c name totp resp)"
proof -
  have step: "sideways but_offset (entra_step l u totp name n st)" for u n st
    unfolding entra_step_def checked_post_url_def Let_def by (intro para_intro sideways_fetch)
  have loop: "sideways but_offset (entra_loop l u totp name n k st)" for u n k st
    by (induction k arbitrary: n st) (auto intro!: para_intro step)
  have fed: "sideways but_offset (federated_login l u p name)" for u p
    unfolding federated_login_def authenticate_via_ws_trust_def ws_trust_endpoint_def exchange_assertion_def raise_for_status_def read_assertion_def
    by (intro para_intro sideways_fetch)
  show ?thesis
    unfolding entra_login_def probe_credential_type_def post_password_def checked_post_url_def Let_def
    by (intro para_intro sideways_fetch loop fed)
qed

text \<open>
  The Entra login does not use the server's clock: whatever offset was measured, it sends the same
  requests and ends the same.  Its TOTP code is the one of the local clock at the start.
\<close>

theorem entra_ignores_server_clock:
  "fst (auto_authenticate_entra l c login_url fin name (s\<lparr>offset := off\<rparr>)) = fst (auto_authenticate_entra l c login_url fin name s)
   \<and> trace (snd (auto_authenticate_entra l c login_url fin name (s\<lparr>offset := off\<rparr>))) = trace (snd (auto_authenticate_entra l c login_url fin name s))"
proof -
  have "sideways but_offset (auto_authenticate_entra l c login_url fin name)"
    unfolding auto_authenticate_entra_def by (intro para_intro sideways_fetch)
  moreover have "but_offset s (s\<lparr>offset := off\<rparr>)" by (simp add: but_sess)
  moreover obtain r t where a: "auto_authenticate_entra l c login_url fin name s = (r, t)" by fastforce
  ultimately obtain t' where "auto_authenticate_entra l c login_url fin name (s\<lparr>offset := off\<rparr>) = (r, t')" "but_offset t t'"
    using sidewaysD by blast
  with a show ?thesis by (simp add: but_sess)
qed

subsection \<open>What the envelope and the realm query say\<close>

text \<open>The tags of an XML text, without what is between them.\<close>

fun markup :: "bool \<Rightarrow> string \<Rightarrow> string" where
  "markup inside [] = []"
| "markup False (c # s) = (if c = CHR ''<'' then c # markup True s else markup False s)"
| "markup True (c # s) = c # markup (c \<noteq> CHR ''>'') s"

lemma markup_text: "CHR ''<'' \<notin> set x \<Longrightarrow> markup False (x @ s) = markup False s"
  by (induction x) auto

lemma markup_escaped [simp]: "markup False (html_escape x @ s) = markup False s"
  using html_escape_safe by (intro markup_text) blast

text \<open>
  C29.  No user name, password or URL can change the envelope: its tags are always the same.
\<close>

theorem envelope_structure_fixed:
  assumes "CHR ''<'' \<notin> set uuid"
  shows "markup False (soap_envelope uuid u p url) = markup False (soap_envelope [] [] [] [])"
  using assms by (simp add: soap_envelope_def quoted_def markup_text)

theorem envelope_structure_fixed_witness:
  "markup False (soap_envelope ''42'' ''a<b'' ''</o:Password><x>'' ''https://h/'') = markup False (soap_envelope [] [] [] [])"
  by (rule envelope_structure_fixed) simp

lemma split_on_none: "c \<notin> set s \<Longrightarrow> split_on c s = [s]"
  by (induction s) auto

lemma split_on_sep: "c \<notin> set a \<Longrightarrow> split_on c (a @ c # s) = a # split_on c s"
  by (induction a) auto

text \<open>
  C30.  Realm discovery always asks Microsoft, about exactly the user name given: whatever characters it
  has, the URL has that host, and the query reads back as the user name.
\<close>

theorem realm_query_roundtrip:
  assumes "user \<noteq> []"
  shows "\<exists>p. urlparse (realm_url user) [] = Inr p \<and> u_scheme p = ''https'' \<and> u_netloc p = ''login.microsoftonline.com''
    \<and> parse_qs (u_query p) = [(''login'', utf8 user), (''xml'', ''0'')] \<and> u_fragment p = []"
proof -
  have q: "list_all query_safe (quote_plus user)" by (rule quote_plus_safe)
  then have n: "c \<notin> set (quote_plus user)" if "\<not> query_safe c" for c using that by (auto simp: list_all_iff)
  have bad: "\<not> query_safe CHR ''#''" "\<not> query_safe CHR ''?''" "\<not> query_safe CHR ''&''" "\<not> query_safe CHR ''=''" "\<not> query_safe CHR '';''"
    by (simp_all add: query_safe_def)
  have ne: "quote_plus user \<noteq> []"
  proof
    assume "quote_plus user = []"
    then have "utf8 user = []" using unquote_quote [of user] by simp
    then show False using assms by (cases user) (auto simp: utf8_def utf8_char_def Let_def split: if_splits)
  qed
  let ?q = "''login='' @ quote_plus user @ ''&xml=0''"
  have 6: "split_on (CHR ''&'') ?q = [''login='' @ quote_plus user, ''xml=0'']"
    using split_on_sep [of "CHR ''&''" "''login='' @ quote_plus user" "''xml=0''"] n [OF bad(3)] by (simp add: split_on_none)
  have 8: "parse_qs ?q = [(''login'', utf8 user), (''xml'', ''0'')]"
    unfolding parse_qs_def 6 using ne by (simp add: before_def after_def unquote_quote)
  have 9: "realm_url user = ''https'' @ ''://'' @ ''login.microsoftonline.com'' @ ''/getuserrealm.srf'' @ CHR ''?'' # ?q"
    by (simp add: realm_url_def)
  have 10: "split_params ''/getuserrealm.srf'' = (''/getuserrealm.srf'', [])" by code_simp
  have 11: "list_all (\<lambda>c. c \<noteq> CHR ''#'' \<and> \<not> unsafe_byte c) ?q"
  proof -
    have "query_safe c \<Longrightarrow> c \<noteq> CHR ''#'' \<and> \<not> unsafe_byte c" for c by (simp add: query_safe_def)
    with q have "list_all (\<lambda>c. c \<noteq> CHR ''#'' \<and> \<not> unsafe_byte c) (quote_plus user)" by (auto simp: list_all_iff)
    then show ?thesis by (simp add: unsafe_byte_def)
  qed
  have "urlparse (realm_url user) [] = Inr \<lparr>u_scheme = ''https'', u_netloc = ''login.microsoftonline.com'', u_path = ''/getuserrealm.srf'',
      u_params = [], u_query = ?q, u_fragment = []\<rparr>"
    unfolding 9 by (rule urlparse_assembled [OF _ _ _ _ refl _ 10 11]) (simp_all add: web_def netloc_end_def unsafe_byte_def)
  then show ?thesis using 8 by simp
qed

theorem realm_query_roundtrip_witness:
  "\<exists>p. urlparse (realm_url ''a+b@x.at&xml=1'') [] = Inr p \<and>
     parse_qs (u_query p) = [(''login'', ''a+b@x.at&xml=1''), (''xml'', ''0'')]"
proof -
  have "(''a+b@x.at&xml=1'' :: string) \<noteq> []" by simp
  moreover have "utf8 ''a+b@x.at&xml=1'' = ''a+b@x.at&xml=1''" by (simp add: utf8_def utf8_char_def)
  ultimately show ?thesis using realm_query_roundtrip [of "''a+b@x.at&xml=1''"] by auto
qed

subsection \<open>A concrete Entra login\<close>

text \<open>A tenant without MFA: login page, credential type, password, SAML form, gateway.\<close>

definition saml_form :: form where
  "saml_form = \<lparr>f_action = Some ''https://vpn.at/acs'', f_method = Some ''POST'', f_fields = [(''SAMLResponse'', Some ''A'')], f_input = (\<lambda>n. Inr None)\<rparr>"

definition entra_serve :: "request list \<Rightarrow> answer" where
  "entra_serve h =
     \<lparr>a_reply = Inr (
        if length h = 1 then blank_reply\<lparr>r_url := ''https://login.microsoftonline.com/t'', r_text := ''$Config={1};''\<rparr>
        else if length h = 2 then blank_reply\<lparr>r_json := Inr (JObj [(''Credentials'', JObj [(''HasPassword'', JBool True)])])\<rparr>
        else if length h = 3 then blank_reply\<lparr>r_url := ''https://login.microsoftonline.com/post'', r_page := Inr \<lparr>p_forms = [saml_form], p_refresh = []\<rparr>\<rparr>
        else blank_reply\<lparr>r_url := ''https://vpn.at/end'', r_cookies := [(''webvpn'', ''T'')]\<rparr>),
      a_jar = [], a_hops = []\<rparr>"

definition entra_lib :: lib where
  "entra_lib = (sample_lib entra_serve)\<lparr>loads := (\<lambda>s. if s = ''{1}'' then Some (JObj [(''urlPost'', JStr ''/post'')]) else None)\<rparr>"

definition entra_run :: "(fail + string) \<times> sess" where
  "entra_run = auto_authenticate_entra entra_lib sample_creds ''https://login.microsoftonline.com/t'' ''https://vpn.at/end'' ''webvpn''
     (sample_sess (Some [''vpn.at'']))"

lemma entra_run_result:
  "(fst entra_run, map target (trace (snd entra_run))) = (Inr ''T'',
     [''https://login.microsoftonline.com/t'', ''https://login.microsoftonline.com/common/GetCredentialType'',
      ''https://login.microsoftonline.com/post'', ''https://vpn.at/acs''])"
  by code_simp

lemmas entra_run_targets = entra_run_result [THEN arg_cong [where f = snd], unfolded snd_conv]


end
