(* ===== verification/HeadlessMain.thy ===== *)
theory HeadlessMain
  imports HeadlessEntra
begin

text \<open>
  \<open>vpn/headless.py\<close>: \<open>authenticate\<close>, which tries the external script, the scripted login and the
  local callback server, with \<open>_run_auth_script\<close> and \<open>_callback_authenticate\<close>.

  What is outside is the record \<open>outside\<close>: the libraries, how the script ends, whether the ports are
  free, and the requests that reach the callback server, each with the seconds the server waited
  for it.  What the program prints and logs is left out.
\<close>

datatype script_end = TimedOut | CannotRun | Done int string "string option"

datatype callback = CbGet string | CbPost "string option" | CbQuiet

record outside =
  o_lib :: lib
  o_script :: "string option"
  o_run :: "string list \<Rightarrow> (string \<times> string) list \<Rightarrow> string \<Rightarrow> script_end"
  o_environ :: "string \<Rightarrow> string option"
  o_port_free :: bool
  o_any_port :: bool
  o_timeout :: rat
  o_callbacks :: "(rat \<times> callback) list"

subsection \<open>The external script\<close>

definition script_env :: "(string \<Rightarrow> string option) \<Rightarrow> (string \<times> string) list" where
  "script_env environ =
     [(''PATH'', case environ ''PATH'' of Some v \<Rightarrow> v | None \<Rightarrow> ''/usr/local/bin:/usr/bin:/bin''),
      (''HOME'', case environ ''HOME'' of Some v \<Rightarrow> v | None \<Rightarrow> [])]"

definition run_auth_script :: "outside \<Rightarrow> string \<Rightarrow> creds \<Rightarrow> string \<Rightarrow> string \<Rightarrow> string flow" where
  "run_auth_script x path c login_url name =
     (case o_run x [path, login_url, name, c_username c] (script_env (o_environ x)) (c_password c) of
        TimedOut \<Rightarrow> throw (HeadlessAuthError ScriptTimeout)
      | CannotRun \<Rightarrow> throw (Raised OSError)
      | Done returncode out err \<Rightarrow>
          (if returncode \<noteq> 0 then
             throw (HeadlessAuthError (ScriptExit returncode
               (if strip (default err) = [] then ''no stderr output'' else strip (default err))))
           else if strip out = [] then throw (HeadlessAuthError ScriptEmpty)
           else ret (strip out)))"

subsection \<open>The callback server\<close>

text \<open>The first of the names that has a nonempty value.\<close>

fun pick_token :: "string list \<Rightarrow> (string \<times> string) list \<Rightarrow> string option" where
  "pick_token [] params = None"
| "pick_token (name # names) params =
     (if truthy (map_of params name) then map_of params name else pick_token names params)"

definition get_names :: "string \<Rightarrow> string list" where
  "get_names name = [name, ''token'', ''session_token'', ''sso_token'', ''code'']"

definition post_names :: "string \<Rightarrow> string list" where
  "post_names name = [name, ''token'', ''session_token'', ''sso_token'', ''SAMLResponse'']"

text \<open>
  \<open>do_GET\<close> and \<open>do_POST\<close>: the token, and the status of the response.  A path that does not parse and
  a \<open>Content-Length\<close> that is no number (\<open>CbPost None\<close>) raise inside the handler, which gives up
  without a response.
\<close>

fun handle_callback :: "string \<Rightarrow> callback \<Rightarrow> string option \<times> nat option" where
  "handle_callback name (CbGet path) =
     (case urlparse path [] of
        Inl e \<Rightarrow> (None, None)
      | Inr parsed \<Rightarrow>
          (let token = pick_token (get_names name) (parse_qs (u_query parsed)) in
           (token, Some (if truthy token then 200 else 400))))"
| "handle_callback name (CbPost (Some body)) = (pick_token (post_names name) (parse_qs body), Some 200)"
| "handle_callback name (CbPost None) = (None, None)"
| "handle_callback name CbQuiet = (None, None)"

text \<open>The loop: until a token or the deadline.\<close>

fun serve_callbacks :: "string \<Rightarrow> rat \<Rightarrow> (rat \<times> callback) list \<Rightarrow> string option" where
  "serve_callbacks name left [] = None"
| "serve_callbacks name left ((dt, cb) # r) =
     (if left \<le> 0 then None
      else case fst (handle_callback name cb) of
        Some token \<Rightarrow> Some token
      | None \<Rightarrow> serve_callbacks name (left - dt) r)"

definition callback_authenticate :: "outside \<Rightarrow> string \<Rightarrow> string flow" where
  "callback_authenticate x name =
     bind_flow (ask rejected) (\<lambda>rej.
     bind_flow (guard (\<not> rej) (throw BadCredentials)) (\<lambda>_.
     bind_flow (guard (o_port_free x \<or> o_any_port x) (throw (Raised OSError))) (\<lambda>_.
       case serve_callbacks name (o_timeout x) (o_callbacks x) of
         Some token \<Rightarrow> ret token
       | None \<Rightarrow> throw (HeadlessAuthError CallbackTimeout))))"

subsection \<open>\<open>authenticate\<close>\<close>

text \<open>\<open>try\<close> that logs and goes on.\<close>

definition attempt :: "string flow \<Rightarrow> string option flow" where
  "attempt m s = (case m s of (Inl e, s1) \<Rightarrow> (Inr None, s1) | (Inr t, s1) \<Rightarrow> (Inr (Some t), s1))"

definition with_hint :: "string flow \<Rightarrow> string option flow" where
  "with_hint m s = (case m s of (Inl e, s1) \<Rightarrow> (Inl (WithHint e), s1) | (Inr t, s1) \<Rightarrow> (Inr (Some t), s1))"

definition script_phase :: "outside \<Rightarrow> creds option \<Rightarrow> string \<Rightarrow> string \<Rightarrow> string option flow" where
  "script_phase x credentials login_url name =
     (if \<not> truthy (o_script x) then ret None
      else case credentials of
        None \<Rightarrow> throw (Raised AttributeError)
      | Some c \<Rightarrow>
          (if c_username c \<noteq> [] \<and> c_password c \<noteq> [] then attempt (run_auth_script x (the (o_script x)) c login_url name)
           else ret None))"

definition auto_phase :: "outside \<Rightarrow> creds option \<Rightarrow> string \<Rightarrow> string \<Rightarrow> string \<Rightarrow> string option flow" where
  "auto_phase x credentials login_url login_final_url name =
     (case credentials of
        None \<Rightarrow> ret None
      | Some c \<Rightarrow>
          (if c_username c = [] then ret None
           else if is_ms_entra_idp login_url then
             with_hint (auto_authenticate_entra (o_lib x) c login_url login_final_url name)
           else attempt (auto_authenticate (o_lib x) credentials login_url login_final_url name)))"

definition headless_authenticate :: "outside \<Rightarrow> creds option \<Rightarrow> string \<Rightarrow> string \<Rightarrow> string \<Rightarrow> string flow" where
  "headless_authenticate x credentials login_url login_final_url name =
     bind_flow (script_phase x credentials login_url name) (\<lambda>t1.
       if truthy t1 then ret (the t1)
       else bind_flow (auto_phase x credentials login_url login_final_url name) (\<lambda>t2.
         if truthy t2 then ret (the t2)
         else callback_authenticate x name))"

subsection \<open>Rejected credentials end the program\<close>

text \<open>Who reports a rejection has marked the session.\<close>

definition honest :: "'a flow \<Rightarrow> bool" where
  "honest m \<longleftrightarrow> (\<forall>s r t h. m s = (r, t) \<longrightarrow> r = Inl (HeadlessAuthError (ServerRejected h)) \<longrightarrow> rejected t)"

named_theorems honest_intro \<open>composition of honest steps\<close>

lemma honest_bind [honest_intro]: "honest m \<Longrightarrow> (\<And>x. honest (f x)) \<Longrightarrow> honest (bind_flow m f)"
  by (auto simp: honest_def bind_flow_def split: prod.splits sum.splits)

lemma honest_basic [honest_intro, simp]:
  "honest (ret x)" "honest (lift_py p)" "honest (ask g)" "honest (change g')" "honest (throw (Raised e))"
  by (auto simp: honest_def flow_simps split: sum.splits)

lemma honest_throw [honest_intro]: "(\<And>h. w \<noteq> ServerRejected h) \<Longrightarrow> honest (throw (HeadlessAuthError w))"
  by (simp add: honest_def throw_def)

lemma honest_cases [honest_intro]:
  "honest gm \<Longrightarrow> honest (guard b gm)"
  "honest im \<Longrightarrow> honest n \<Longrightarrow> honest (if b then im else n)"
  "honest om \<Longrightarrow> (\<And>y. honest (g y)) \<Longrightarrow> honest (case o1 of None \<Rightarrow> om | Some y \<Rightarrow> g y)"
  "(\<And>a b. honest (k a b)) \<Longrightarrow> honest (case pr of (a, b) \<Rightarrow> k a b)"
  "honest m \<Longrightarrow> (\<And>y ys. honest (c y ys)) \<Longrightarrow> honest (case ls of [] \<Rightarrow> m | y # ys \<Rightarrow> c y ys)"
  "(\<And>e. honest (j e)) \<Longrightarrow> (\<And>y. honest (j' y)) \<Longrightarrow> honest (case sm of Inl e \<Rightarrow> j e | Inr y \<Rightarrow> j' y)"
  by (auto simp: guard_def split: option.split prod.split list.split sum.split)

lemma honest_send [honest_intro]: "honest (send l q)"
  by (auto simp: honest_def send_def Let_def split: sum.splits)

lemma honest_fetch [honest_intro]: "honest (fetch l q)"
  unfolding fetch_def raise_for_status_def by (intro honest_intro)

lemma honest_require_host [honest_intro]: "(\<And>h. w \<noteq> ServerRejected h) \<Longrightarrow> honest (require_host w u)"
  unfolding require_host_def by (intro honest_intro) auto

lemma honest_reject [honest_intro]: "honest (raise_if_credentials_rejected t)"
  by (auto simp: honest_def raise_if_credentials_rejected_def write_probe_log_def flow_simps split: list.splits)

lemma honest_absolute [honest_intro]: "honest (absolute b u)"
  unfolding absolute_def by (intro honest_intro)

lemma honest_fill_form [honest_intro]: "honest (fill_form l credentials frm data)"
proof -
  have t: "honest (get_totp_after_cooldown l c)" for c
    unfolding get_totp_after_cooldown_def wait_cooldown_def compute_totp_at_server_time_def Let_def by (intro honest_intro)
  have f: "honest (fill_field l c frm b fd)" for c b fd
    unfolding fill_field_def by (intro honest_intro) (auto intro!: honest_intro t split: slot.split)
  have "honest (fill_fields l c frm b fds)" for c b fds
    by (induction fds) (auto intro!: honest_intro f)
  then show ?thesis unfolding fill_form_def set_csrf_cookie_def by (intro honest_intro)
qed

lemma honest_process_page [honest_intro]: "honest (process_page l credentials resp)"
proof -
  have m: "honest (find_meta_refresh ms b)" for ms b
    by (induction ms b rule: find_meta_refresh.induct) (auto intro!: honest_intro split: option.split list.split)
  have "honest (find_auto_post_form l t b)" for t b
    unfolding find_auto_post_form_def by (auto intro!: honest_intro split: option.split list.split)
  then have "honest (follow_redirect l resp doc)" for doc
    unfolding follow_redirect_def by (intro honest_intro m) auto
  then show ?thesis unfolding process_page_def submit_form_def form_action_def
    by (intro honest_intro) auto
qed

lemma honest_auto_loop [honest_intro]: "honest (auto_loop l credentials fin name n resp)"
proof (induction n arbitrary: resp)
  case (Suc n)
  have "honest (look_for_token resp fin name)"
    unfolding look_for_token_def url_matches_def extract_token_def check_cookies_for_token_def by (intro honest_intro)
  then have "honest (auto_step l credentials fin name resp)"
    unfolding auto_step_def by (intro honest_intro) auto
  with Suc show ?case by (auto intro!: honest_intro)
qed (auto intro: honest_intro)

lemma honest_auto: "honest (auto_authenticate l credentials login_url fin name)"
  unfolding auto_authenticate_def extend_allowed_def by (intro honest_intro) auto

text \<open>
  C12.  Rejected credentials are reported, not retried: when the form login ends with a rejection and
  no script is configured, \<open>authenticate\<close> raises the error that ends the program; the callback
  server is not started, whatever would reach it.
\<close>

theorem rejection_is_final:
  assumes "auto_authenticate (o_lib x) (Some c) login_url fin name s = (Inl (HeadlessAuthError (ServerRejected m)), t)"
    and "\<not> truthy (o_script x)" "c_username c \<noteq> []" "\<not> is_ms_entra_idp login_url"
  shows "headless_authenticate x (Some c) login_url fin name s = (Inl BadCredentials, t)"
proof -
  have "rejected t" using honest_auto assms(1) by (auto simp: honest_def)
  then have cb: "callback_authenticate x name t = (Inl BadCredentials, t)"
    by (simp add: callback_authenticate_def bind_flow_def ask_def guard_def throw_def)
  have "script_phase x (Some c) login_url name s = (Inr None, s)" using assms(2) by (simp add: script_phase_def ret_def)
  moreover have "auto_phase x (Some c) login_url fin name s = (Inr None, t)"
    using assms(1,3,4) by (simp add: auto_phase_def attempt_def)
  ultimately show ?thesis using cb by (simp add: headless_authenticate_def bind_flow_def truthy_def)
qed

definition sample_outside :: "(request list \<Rightarrow> answer) \<Rightarrow> string option \<Rightarrow> (rat \<times> callback) list \<Rightarrow> outside" where
  "sample_outside srv script cbs = \<lparr>o_lib = sample_lib srv, o_script = script, o_run = (\<lambda>cmd env inp. Done 1 [] None),
     o_environ = (\<lambda>v. None), o_port_free = True, o_any_port = True, o_timeout = 300, o_callbacks = cbs\<rparr>"

theorem rejection_is_final_witness:
  "fst (headless_authenticate (sample_outside wrong_serve None [(1, CbGet ''/callback?token=x'')]) (Some sample_creds)
     ''https://idp.at/login'' ''https://vpn.at/end'' ''webvpn'' (sample_sess None)) = Inl BadCredentials"
proof -
  let ?x = "sample_outside wrong_serve None [(1, CbGet ''/callback?token=x'')]"
  have "fst (auto_authenticate (o_lib ?x) (Some sample_creds) ''https://idp.at/login'' ''https://vpn.at/end'' ''webvpn'' (sample_sess None))
      = Inl (HeadlessAuthError (ServerRejected ''invalid credentials''))" by code_simp
  then have "auto_authenticate (o_lib ?x) (Some sample_creds) ''https://idp.at/login'' ''https://vpn.at/end'' ''webvpn'' (sample_sess None)
      = (Inl (HeadlessAuthError (ServerRejected ''invalid credentials'')),
         snd (auto_authenticate (o_lib ?x) (Some sample_creds) ''https://idp.at/login'' ''https://vpn.at/end'' ''webvpn'' (sample_sess None)))"
    by (metis prod.collapse)
  moreover have "\<not> is_ms_entra_idp ''https://idp.at/login''" by code_simp
  moreover have "\<not> truthy (o_script ?x)" "c_username sample_creds \<noteq> []" by (simp_all add: sample_outside_def truthy_def sample_creds_def)
  ultimately show ?thesis using rejection_is_final [of ?x sample_creds] by fastforce
qed

subsection \<open>The script\<close>

text \<open>
  The external script is not the last word: when it fails, in whatever way, \<open>authenticate\<close> does
  exactly what it does without a script, the scripted login with the same credentials included, and
  not only the callback server that the log message announces.
\<close>

theorem failed_script_is_ignored:
  assumes "run_auth_script x path c login_url name s = (Inl e, s)" "path \<noteq> []" "c_username c \<noteq> []" "c_password c \<noteq> []"
  shows "headless_authenticate (x\<lparr>o_script := Some path\<rparr>) (Some c) login_url fin name s
    = headless_authenticate (x\<lparr>o_script := None\<rparr>) (Some c) login_url fin name s"
proof -
  have same: "o_lib (x\<lparr>o_script := a\<rparr>) = o_lib x" "o_port_free (x\<lparr>o_script := a\<rparr>) = o_port_free x"
      "o_any_port (x\<lparr>o_script := a\<rparr>) = o_any_port x" "o_timeout (x\<lparr>o_script := a\<rparr>) = o_timeout x"
      "o_callbacks (x\<lparr>o_script := a\<rparr>) = o_callbacks x" for a by simp_all
  have "run_auth_script (x\<lparr>o_script := Some path\<rparr>) path c login_url name = run_auth_script x path c login_url name"
    by (simp add: run_auth_script_def)
  then have s1: "script_phase (x\<lparr>o_script := Some path\<rparr>) (Some c) login_url name s = (Inr None, s)"
    using assms by (simp add: script_phase_def truthy_def attempt_def)
  have s2: "script_phase (x\<lparr>o_script := None\<rparr>) (Some c) login_url name s = (Inr None, s)"
    by (simp add: script_phase_def truthy_def ret_def)
  have a: "auto_phase (x\<lparr>o_script := Some path\<rparr>) = auto_phase (x\<lparr>o_script := None\<rparr>)"
    unfolding auto_phase_def same ..
  have c: "callback_authenticate (x\<lparr>o_script := Some path\<rparr>) = callback_authenticate (x\<lparr>o_script := None\<rparr>)"
    unfolding callback_authenticate_def same ..
  show ?thesis unfolding headless_authenticate_def bind_flow_def s1 s2 a c ..
qed

theorem failed_script_is_ignored_witness:
  "headless_authenticate ((sample_outside wrong_serve None [])\<lparr>o_script := Some ''/s''\<rparr>) (Some sample_creds) ''https://idp.at/'' [] ''t'' (sample_sess None)
   = headless_authenticate ((sample_outside wrong_serve None [])\<lparr>o_script := None\<rparr>) (Some sample_creds) ''https://idp.at/'' [] ''t'' (sample_sess None)"
proof (rule failed_script_is_ignored)
  show "run_auth_script (sample_outside wrong_serve None []) ''/s'' sample_creds ''https://idp.at/'' ''t'' (sample_sess None)
      = (Inl (HeadlessAuthError (ScriptExit 1 ''no stderr output'')), sample_sess None)"
    by (simp add: run_auth_script_def sample_outside_def throw_def default_def strip_def)
qed (simp_all add: sample_creds_def)

subsection \<open>Callbacks\<close>

lemma pick_token_Some: "pick_token names params = Some t \<Longrightarrow> t \<noteq> []"
  by (induction names) (auto simp: truthy_def split: if_splits)

lemma handle_callback_Some: "fst (handle_callback name cb) = Some t \<Longrightarrow> t \<noteq> []"
  by (cases "(name, cb)" rule: handle_callback.cases) (auto simp: Let_def split: sum.splits dest: pick_token_Some)

text \<open>The time a list of waits takes.\<close>

definition spent :: "(rat \<times> callback) list \<Rightarrow> rat" where
  "spent cbs = sum_list (map fst cbs)"

definition first_token :: "string \<Rightarrow> rat \<Rightarrow> (rat \<times> callback) list \<Rightarrow> string \<Rightarrow> bool" where
  "first_token name left cbs t \<longleftrightarrow>
     (\<exists>early dt cb late. cbs = early @ (dt, cb) # late \<and> fst (handle_callback name cb) = Some t
        \<and> (\<forall>p\<in>set early. fst (handle_callback name (snd p)) = None)
        \<and> (\<forall>k\<le>length early. spent (take k early) < left))"

lemma spent_Cons: "(\<forall>k\<le>length (p # e). spent (take k (p # e)) < left) \<longleftrightarrow> 0 < left \<and> (\<forall>k\<le>length e. spent (take k e) < left - fst p)"
proof -
  have "(\<forall>k\<le>Suc n. P k) \<longleftrightarrow> P 0 \<and> (\<forall>k\<le>n. P (Suc k))" for P :: "nat \<Rightarrow> bool" and n
    by (metis Suc_le_mono not0_implies_Suc zero_le)
  then show ?thesis by (auto simp: spent_def algebra_simps)
qed

lemma first_token_Cons:
  "first_token name left ((dt, cb) # r) t \<longleftrightarrow> 0 < left \<and>
     (fst (handle_callback name cb) = Some t \<or> fst (handle_callback name cb) = None \<and> first_token name (left - dt) r t)"
proof
  assume "first_token name left ((dt, cb) # r) t"
  then obtain early dt' cb' late where e: "(dt, cb) # r = early @ (dt', cb') # late" "fst (handle_callback name cb') = Some t"
      "\<forall>p\<in>set early. fst (handle_callback name (snd p)) = None" "\<forall>k\<le>length early. spent (take k early) < left"
    unfolding first_token_def by blast
  show "0 < left \<and> (fst (handle_callback name cb) = Some t \<or> fst (handle_callback name cb) = None \<and> first_token name (left - dt) r t)"
  proof (cases early)
    case Nil
    then show ?thesis using e by (auto simp: spent_def)
  next
    case (Cons p e')
    then have "p = (dt, cb)" "r = e' @ (dt', cb') # late" using e(1) by auto
    moreover from e(4) have "0 < left \<and> (\<forall>k\<le>length e'. spent (take k e') < left - fst p)"
      unfolding Cons spent_Cons .
    ultimately show ?thesis using e(2,3) Cons unfolding first_token_def by auto
  qed
next
  assume a: "0 < left \<and> (fst (handle_callback name cb) = Some t \<or> fst (handle_callback name cb) = None \<and> first_token name (left - dt) r t)"
  show "first_token name left ((dt, cb) # r) t"
  proof (cases "fst (handle_callback name cb) = Some t")
    case True
    then show ?thesis using a unfolding first_token_def by (intro exI [of _ "[]"]) (auto simp: spent_def)
  next
    case False
    with a obtain early dt' cb' late where e: "r = early @ (dt', cb') # late" "fst (handle_callback name cb') = Some t"
      "\<forall>p\<in>set early. fst (handle_callback name (snd p)) = None" "\<forall>k\<le>length early. spent (take k early) < left - dt"
      unfolding first_token_def by blast
    have "\<forall>k\<le>length ((dt, cb) # early). spent (take k ((dt, cb) # early)) < left"
      using a e(4) unfolding spent_Cons by simp
    with a False e(1-3) show ?thesis unfolding first_token_def
      by (intro exI [of _ "(dt, cb) # early"] exI [of _ dt'] exI [of _ cb'] exI [of _ late]) auto
  qed
qed

lemma serve_callbacks_first: "serve_callbacks name left cbs = Some t \<longleftrightarrow> first_token name left cbs t"
proof (induction name left cbs rule: serve_callbacks.induct)
  case (1 name left)
  then show ?case by (simp add: first_token_def)
next
  case (2 name left dt cb r)
  then show ?case by (auto simp: first_token_Cons split: option.split)
qed

text \<open>
  C32.  The callback server returns the token of the first request that carries one, if the server was
  still waiting when it came; otherwise it times out.
\<close>

theorem callback_takes_first_token:
  assumes "\<not> rejected s" "o_port_free x \<or> o_any_port x"
  shows "(callback_authenticate x name s = (Inr t, s) \<longleftrightarrow> first_token name (o_timeout x) (o_callbacks x) t)
    \<and> (callback_authenticate x name s = (Inl (HeadlessAuthError CallbackTimeout), s)
         \<longleftrightarrow> (\<nexists>t. first_token name (o_timeout x) (o_callbacks x) t))"
proof -
  have "callback_authenticate x name s = (case serve_callbacks name (o_timeout x) (o_callbacks x) of
         Some token \<Rightarrow> (Inr token, s) | None \<Rightarrow> (Inl (HeadlessAuthError CallbackTimeout), s))"
    using assms by (auto simp: callback_authenticate_def flow_simps split: option.split)
  then show ?thesis unfolding serve_callbacks_first [symmetric]
    by (cases "serve_callbacks name (o_timeout x) (o_callbacks x)") auto
qed

theorem callback_takes_first_token_witness:
  "callback_authenticate (sample_outside wrong_serve None [(2, CbQuiet), (1, CbGet ''/callback?x=1''), (1, CbPost (Some ''token=a%2Bb&y''))]) ''webvpn'' (sample_sess None)
   = (Inr ''a+b'', sample_sess None)"
proof -
  let ?cbs = "[(2, CbQuiet), (1, CbGet ''/callback?x=1''), (1, CbPost (Some ''token=a%2Bb&y''))]"
  have "serve_callbacks ''webvpn'' 300 ?cbs = Some ''a+b''" by code_simp
  then have "first_token ''webvpn'' 300 ?cbs ''a+b''" by (rule serve_callbacks_first [THEN iffD1])
  then have "first_token ''webvpn'' (o_timeout (sample_outside wrong_serve None ?cbs)) (o_callbacks (sample_outside wrong_serve None ?cbs)) ''a+b''"
    by (simp add: sample_outside_def)
  then show ?thesis
    using callback_takes_first_token [of "sample_sess None" "sample_outside wrong_serve None ?cbs" "''webvpn''" "''a+b''"]
    by (simp add: sample_sess_def sample_outside_def)
qed

text \<open>
  Whatever way \<open>authenticate\<close> takes, a token it returns is not empty.
\<close>

theorem token_never_empty:
  assumes "headless_authenticate x credentials login_url fin name s = (Inr token, t)"
  shows "token \<noteq> []"
proof -
  obtain t1 s1 where "script_phase x credentials login_url name s = (Inr t1, s1)"
      "(if truthy t1 then ret (the t1) else bind_flow (auto_phase x credentials login_url fin name) (\<lambda>t2.
         if truthy t2 then ret (the t2) else callback_authenticate x name)) s1 = (Inr token, t)"
    using assms by (auto simp: headless_authenticate_def bind_flow_Inr)
  moreover have "truthy y \<Longrightarrow> the y \<noteq> []" for y by (auto simp: truthy_def)
  ultimately consider "token \<noteq> []" | s2 where "callback_authenticate x name s2 = (Inr token, t)"
    by (cases "truthy t1") (auto simp: bind_flow_Inr ret_def split: if_splits)
  then show ?thesis
  proof cases
    case 2
    then have "serve_callbacks name (o_timeout x) (o_callbacks x) = Some token"
      by (auto simp: callback_authenticate_def bind_flow_Inr flow_simps split: option.splits if_splits)
    then show ?thesis by (auto simp: serve_callbacks_first first_token_def dest: handle_callback_Some)
  qed
qed

theorem token_never_empty_witness:
  "\<exists>token. fst (headless_authenticate (sample_outside (sample_serve ''https://evil.com/x'') None []) (Some sample_creds)
     ''https://idp.at/login'' ''https://vpn.at/end'' ''webvpn'' (sample_sess None)) = Inr token \<and> token \<noteq> []"
proof -
  have "fst (headless_authenticate (sample_outside (sample_serve ''https://evil.com/x'') None []) (Some sample_creds)
     ''https://idp.at/login'' ''https://vpn.at/end'' ''webvpn'' (sample_sess None)) = Inr ''T''" by code_simp
  then show ?thesis using token_never_empty by (metis prod.collapse)
qed

end
