(* ===== verification/Spec2Isabelle.thy ===== *)
theory Spec2Isabelle
  imports Ownership Config WatchLoop HeadlessMain
begin

text \<open>
  EasyUniMailProxy keeps a university mailbox available on a box of one's own.  The university is
  reached through a VPN; behind it a mail container mirrors the mailboxes, lets the users log in
  with their university password, and sends their mail; a watchdog container probes the result
  and pushes alerts.  This development models the Python programs of the repository and proves
  what makes them correct.

  \<^bold>\<open>The program and its theories.\<close>

  \<^item> The login of the mail server, \<open>mail/authcheck.py\<close>: \<open>FileStore\<close> is the machine the scripts act on
    (files, modes, directories; \<open>os.path\<close>; the four effects of an atomic write and where a
    crash may stop them), \<open>AuthCheck\<close> the checkpassword program: \<open>normalize_user\<close>, \<open>enroll\<close>, \<open>deauth\<close>,
    \<open>cooldown_ok\<close>, \<open>verify_uni\<close>, \<open>authenticate\<close>, \<open>main\<close> are the functions of those names.  \<open>Account\<close>
    is the abstract specification of the credential store, one record for a user, and the
    proof that the files implement it.
  \<^item> Sending, \<open>mail/relaysend.py\<close>: \<open>RelaySend\<close>, with \<open>relay_main\<close> for \<open>main\<close>.
  \<^item> Mirroring.  \<open>ImapList\<close> is \<open>mail/imap_list.py\<close> (modified UTF-7, LIST lines, with the encoder they
    are proved against); \<open>Upstream\<close> what the programs share (users with a secret, one IMAP session);
    \<open>SpecialUse\<close> is \<open>mail/special_use.py\<close>; \<open>SyncEngine\<close> is \<open>mail/sync.py\<close> with the configuration of
    mbsync, the quarantine of folders that are gone, \<open>sync_user\<close> and \<open>sync_main\<close>.
  \<^item> Watching, \<open>mail/idle.py\<close>: \<open>IdleWatch\<close> has the IDLE exchange on a buffered socket, the one-time
    subscription and \<open>watch_user\<close> with its backoff; \<open>IdleThreads\<close> the process as a step relation
    over threads and locks.
  \<^item> The watchdog, \<open>watchdog/watchdog.py\<close>: \<open>WatchStats\<close> is the class \<open>Stats\<close>, \<open>Calendar\<close> the calendar of
    \<open>datetime\<close>, \<open>WatchReport\<close> the text keys, reports, the push to ntfy, the probe and the crash
    behaviour of \<open>save\<close>, \<open>WatchLoop\<close> the loop of \<open>main\<close> and its alerts.
  \<^item> The VPN login, \<open>vpn/headless.py\<close>: \<open>UrlParse\<close> and \<open>Scan\<close> are the parts of \<open>urllib.parse\<close>, \<open>re\<close> and \<open>html\<close>
    it uses; \<open>Headless\<close> has the state of \<open>HeadlessAuthenticator\<close> and the monad its methods are written
    in, the whitelist and the tokens; \<open>HeadlessForm\<close> the login through forms with TOTP,
    \<open>HeadlessEntra\<close> the login at Microsoft with WS-Trust, \<open>HeadlessMain\<close> \<open>authenticate\<close> itself with the
    external script and the callback server.
  \<^item> \<open>Config\<close> is what each module reads from the environment, \<open>Prelude\<close> the shared Python operations.
  \<^item> \<open>MailSystem\<close> puts the programs of the mail container on one set of files: a history is a list of
    events, each a run of one program; \<open>Ownership\<close> says whom their files belong to.  The properties that span components are in this theory.

  \<^bold>\<open>How the code is rendered.\<close>  A function that may raise returns \<open>exc + 'a\<close>; the subclass tests of
  the \<open>except\<close> clauses are functions on \<open>exc\<close>.  State is passed along: the files as a \<open>world\<close>, one
  user's Maildir as a \<open>store\<close>, the statistics as \<open>stats\<close> with a \<open>disk\<close>, a login session as \<open>sess\<close> in the
  monad \<open>'a flow\<close>.  What a program does to the outside is in traces: attempts at the university,
  runs of mbsync, delivered messages, HTTP requests, pushes.  Text is a list of characters up to
  U+00FF; folder names, which are decoded from UTF-16, are lists of code points.  Times are
  exact rationals.

  \<^bold>\<open>Interfaces.\<close>  \<open>file_store\<close> (a store of files: reading after writing, removing, renaming) is
  interpreted on \<open>world\<close>; \<open>registry\<close> (a table that hands out one lock for a key) on the process of
  \<open>idle.py\<close>; \<open>bounded_log\<close> (a log that never outgrows its cap) on the errors and the samples of an
  outage; \<open>blind\<close> (two sessions that a page cannot tell apart) on sessions that differ in the
  whitelist and on a session and its copy without one.

  \<^bold>\<open>What the lemmas show.\<close>

  \<^item> Credentials: whom \<open>authenticate\<close> lets in, the rate of the attempts at the university over any
    sequence of logins, what a refused login and a de-enrollment change; the refinement of
    \<open>Account\<close>; and for every history of logins, messages, syncs and watchers, that hash and secret
    stay together, that they hold a password the university accepted for that very user, that nobody
    but the mail user can read them (\<open>Ownership\<close>), and that a rejection takes effect in all programs.
  \<^item> Mirroring: decoding inverts encoding for every folder name, \<open>parse_list\<close> inverts the server's
    printing, quarantine neither loses nor duplicates mail, a user's sync does not depend on others.
  \<^item> Watching: when the IDLE wait returns and how it fails, when a watcher ends; at most one sync and
    one watcher for a user in every reachable state, and that a waiting thread gets its lock.
  \<^item> Watchdog: the invariant of the statistics, exact times, windows and retention, the refinement of the
    numbered rows by the rows with text keys, and the order of the alerts.
  \<^item> VPN login: where requests may go, where the token comes from, that a whitelist only restricts
    (by relating two runs), the TOTP code at the server's time, that a rejection is final, and
    bounds on the requests.

  \<^bold>\<open>Bounds.\<close>  The loops of \<open>vpn/headless.py\<close> have their own limit: 20 steps, hence at most 21 requests
  (\<open>login_requests_bounded\<close>), and 8 steps at Microsoft, hence at most 19 (\<open>entra_requests_bounded\<close>), so
  the model recurses on the steps left and needs no fuel.  The reads of \<open>idle.py\<close> consume what the
  server sends, and recursion is on what is still to come; a read that waits for ever is a value
  (\<open>None\<close>, \<open>Blocked\<close>).  The retry loop of a watcher runs over the sessions it meets, the loop of the
  watchdog over its readings.  The regular expressions match by recursion on the text.

  \<^bold>\<open>Parameters.\<close>  Code that is not in the repository is an argument of the definitions: \<open>crypt\<close> and
  Fernet (\<open>crypto\<close>), the sessions of \<open>imaplib\<close> and \<open>smtplib\<close>, mbsync, \<open>requests\<close> with its cookie jar, lxml,
  pyotp, the keyring, \<open>json.loads\<close>, \<open>html.unescape\<close>, the child process of the auth script, sockets.
  \<open>crypto_ok\<close> states what is relied on (a hash checks against itself and is not padded, decryption
  inverts encryption), \<open>ideal_crypto\<close> in addition that only the hashed password checks;
  \<open>smtp_ok\<close> that \<open>smtplib\<close> raises exceptions of class \<open>Exception\<close>.

  \<^bold>\<open>Not modelled.\<close>  Shell entry points, Dockerfiles, compose files and the configuration of Dovecot and
  Postfix, which are glue around other programs, and the tests.  Of the Python code: log lines
  and console output apart from the uptime lines and the probe log; the text of JSON files (a file holds the value it encodes); failures of the file system other
  than a missing file; symbolic links and \<open>..\<close> in paths.  An event of \<open>MailSystem\<close> is atomic; the
  interleaving of two logins of the same user inside \<open>enroll\<close> is not covered.
\<close>

subsection \<open>The mail container as a whole\<close>

text \<open>
  C2.  Whatever users, mail servers and the university do, in any order: the password that passes the
  local check is the one the other programs log in with, and it is a password that the university
  accepted for this user in an earlier login.
\<close>

theorem stored_passwords_are_vouched:
  assumes "ideal_crypto (bx_crypto bx)" "new_box w0" "\<forall>ev\<in>set evs. event_ok bx ev"
    and "run_events bx evs (w0, sts0) = (w, sts)" "plain_user e"
  shows "(verify_local (bx_crypto bx) w e p \<longleftrightarrow> read_password (bx_crypto bx) w e = Inr p) \<and>
    (read_password (bx_crypto bx) w e = Inr p \<longrightarrow> (e, p) \<in> vouched bx evs)"
proof -
  have ok: "box_ok (bx_crypto bx) w" "stored (bx_crypto bx) w \<subseteq> vouched bx evs"
    using safe_run [OF assms(1,3,4)] new_box_ok [OF assms(2)] by (auto simp: safe_change_def)
  then have "creds_ok (bx_crypto bx) w e" using assms(5) by (simp add: box_ok_def)
  from verify_local_account [OF assms(1) this] ok(2) assms(5) show ?thesis
    using stored_account [of e p "bx_crypto bx" w] by (auto simp: stored_def)
qed

text \<open>
  C1.  A session is handed to the mail server only for a user and a password that the university has
  accepted together, in this login or in an earlier one of the history; the user is the one the
  client named, in canonical form and with an at sign, the password is the one it sent, not empty,
  and the session gets the home directory of that user.
\<close>

theorem session_implies_university:
  assumes "ideal_crypto (bx_crypto bx)" "new_box w0" "\<forall>ev\<in>set (evs @ [Login conn now raw argv1]). event_ok bx ev"
    and "run_events bx evs (w0, sts0) = (w, sts)"
    and "fst (main (bx_crypto bx) (bx_cooldown bx) conn now (bx_decode bx) (Some raw) argv1 w) = Exec reply user home"
  shows "argv1 = Some reply \<and> home = ''/mail/'' @ user \<and> CHR ''@'' \<in> set user \<and>
    (\<exists>p. login_of bx raw = (user, p) \<and> p \<noteq> [] \<and> (user, p) \<in> vouched bx (evs @ [Login conn now raw argv1]))"
proof -
  obtain e p where l: "login_of bx raw = (e, p)" by fastforce
  obtain r w1 where a: "authenticate (bx_crypto bx) (bx_cooldown bx) conn now e p w = (r, w1)" by fastforce
  have "exit_of x \<noteq> Exec reply user home" for x by (cases x) auto
  with assms(5) main_login [OF l, of "bx_crypto bx" "bx_cooldown bx" conn now argv1 w] a
  have r: "r = Inr True" "user = e" "home = ''/mail/'' @ user" "CHR ''@'' \<in> set e" "p \<noteq> []" "argv1 = Some reply"
    by (auto split: if_splits sum.splits bool.splits option.splits)
  with assms(3) l have "plain_user e" by (auto simp: plain_user_def)
  moreover have ok: "box_ok (bx_crypto bx) w" "stored (bx_crypto bx) w \<subseteq> vouched bx evs"
    using safe_run [OF assms(1) _ assms(4)] assms(3) new_box_ok [OF assms(2)] by (auto simp: safe_change_def)
  ultimately have "creds_ok (bx_crypto bx) w e" by (simp add: box_ok_def)
  from verify_local_account [OF assms(1) this] authenticate_sources [OF a [unfolded r(1)]] \<open>plain_user e\<close> ok(2)
  show ?thesis using stored_account [of e p "bx_crypto bx" w] l r(2-6) by (auto simp: stored_def)
qed



text \<open>
  C3.  A login implements the abstract one on the user's account: its result and the account
  afterwards are those of the specification, the files stay consistent, and no other account
  changes.
\<close>

theorem login_refines_account:
  assumes "ideal_crypto cr" "box_ok cr w" "plain_user e"
    and "authenticate cr cd conn now e p w = (r, w')"
  shows "(r, account_of cr w' e) = account_login cd conn now e p (account_of cr w e) \<and> box_ok cr w' \<and>
    (\<forall>f. plain_user f \<and> f \<noteq> e \<longrightarrow> account_of cr w' f = account_of cr w f)"
proof -
  from assms(2,3) have ok: "key_present w" "creds_ok cr w e" by (auto simp: box_ok_def)
  have "box_ok cr w'"
    using safe_authenticate [OF assms(1,3), of conn p w cd now] assms(2,4) by (simp add: safe_change_def)
  moreover have "\<And>q. q \<notin> set (own_paths e) \<Longrightarrow> files w' q = files w q"
    using files_authenticate [of _ e cr cd conn now p w] assms(4) by simp
  ultimately show ?thesis
    using account_authenticate [OF assms(1,3) ok assms(4)] account_other(1) [OF assms(3)] by metis
qed


subsection \<open>A history on a concrete box\<close>

definition toy_box :: box where
  "toy_box = \<lparr>bx_crypto = toy_crypto, bx_cooldown = 5, bx_decode = id\<rparr>"

definition toy_events :: "nat event list" where
  "toy_events = [Login accepting 100 login_bytes (Some ''/reply'')]"

definition toy_stores :: "string \<Rightarrow> nat store" where
  "toy_stores = (\<lambda>_. \<lparr>maildir = None, stale_folders = []\<rparr>)"

lemma toy_ideal: "ideal_crypto (bx_crypto toy_box)"
  using toy_crypto_ok by (simp add: ideal_crypto_def toy_box_def toy_crypto_def)

lemma fresh_box_new: "new_box fresh_box"
  by (auto simp: new_box_def key_present_def fresh_box_def read_file_def own_names_def cred_path_not_key)

lemma toy_login: "login_of toy_box login_bytes = (''a@b'', ''pw'')"
  by (simp add: login_of_def toy_box_def login_bytes_def char_of_def normalize_user_def strip_def strip_by_def
      str_space_def lower_def lower_char_def bit_Suc_0_iff)

definition toy_world :: world where
  "toy_world = fst (run_events toy_box toy_events (fresh_box, toy_stores))"

lemma toy_run: "run_events toy_box toy_events (fresh_box, toy_stores) = (toy_world, toy_stores)"
  by (simp add: toy_world_def toy_events_def)

lemma toy_events_ok: "\<forall>ev\<in>set toy_events. event_ok toy_box ev"
  by (simp add: toy_events_def toy_login slash_free_def)

lemma plain_a: "plain_user ''a@b''"
  by (simp add: plain_user_def slash_free_def)

theorem stored_passwords_are_vouched_witness:
  "verify_local toy_crypto toy_world ''a@b'' ''pw'' \<longleftrightarrow> read_password toy_crypto toy_world ''a@b'' = Inr ''pw''"
  using stored_passwords_are_vouched [OF toy_ideal fresh_box_new toy_events_ok toy_run plain_a, of "''pw''"]
  by (simp add: toy_box_def)


lemma toy_enrolled: "read_password toy_crypto toy_world ''a@b'' = Inr ''pw''" "box_ok toy_crypto toy_world"
proof -
  have "safe_change toy_crypto (vouched toy_box toy_events) fresh_box toy_world"
    using safe_run [OF toy_ideal toy_events_ok toy_run] by (simp add: toy_box_def)
  with new_box_ok [OF fresh_box_new] show "box_ok toy_crypto toy_world" by (simp add: safe_change_def)
  have w: "toy_world = snd (authenticate toy_crypto 5 accepting 100 ''a@b'' ''pw'' fresh_box)"
    using main_example [of accepting]
    by (simp add: toy_world_def toy_events_def toy_box_def split: prod.splits sum.splits bool.splits)
  have "fst (authenticate toy_crypto 5 accepting 100 ''a@b'' ''pw'' fresh_box) = Inr True"
    "\<not> verify_local toy_crypto fresh_box ''a@b'' ''pw''"
    by (simp_all add: eval_auth)
  from enrolled_login_is_offline [OF toy_crypto_ok plain_a this w, THEN conjunct2]
  show "read_password toy_crypto toy_world ''a@b'' = Inr ''pw''"
    by (auto simp: read_password_def upass_path_plain [OF plain_a, symmetric])
qed


theorem session_implies_university_witness:
  "\<exists>p. login_of toy_box login_bytes = (''a@b'', p) \<and> (''a@b'', p) \<in> vouched toy_box (toy_events @ [Login unreachable 200 login_bytes (Some ''/reply'')])"
proof -
  have ok: "\<forall>ev\<in>set (toy_events @ [Login unreachable 200 login_bytes (Some ''/reply'')]). event_ok toy_box ev"
    using toy_events_ok by (simp add: toy_login slash_free_def)
  have "verify_local toy_crypto toy_world ''a@b'' ''pw''" "is_enrolled toy_world ''a@b''"
    using verify_local_account [of toy_crypto toy_world "''a@b''" "''pw''"] is_enrolled_account [of toy_crypto toy_world "''a@b''"]
      toy_ideal toy_enrolled stored_account [of "''a@b''" "''pw''" toy_crypto toy_world] plain_a
    by (auto simp: box_ok_def stored_def toy_box_def)
  then have "fst (main (bx_crypto toy_box) (bx_cooldown toy_box) unreachable 200 (bx_decode toy_box) (Some login_bytes) (Some ''/reply'') toy_world)
      = Exec ''/reply'' ''a@b'' ''/mail/a@b''"
    unfolding main_login [OF toy_login] by (simp add: authenticate_def toy_box_def)
  from session_implies_university [OF toy_ideal fresh_box_new ok toy_run this] show ?thesis by blast
qed

definition refusing_smtp :: smtp where
  "refusing_smtp = \<lparr>s_open = None, s_ehlo = None, s_starttls = None, s_ehlo_tls = None,
     s_login = (\<lambda>u p. Some SmtpAuthenticationError), s_sendmail = (\<lambda>f r m. Inr []), s_quit = None\<rparr>"


theorem login_refines_account_witness:
  "(fst (authenticate toy_crypto 5 unreachable 200 ''a@b'' ''x'' toy_world), account_of toy_crypto (snd (authenticate toy_crypto 5 unreachable 200 ''a@b'' ''x'' toy_world)) ''a@b'')
    = account_login 5 unreachable 200 ''a@b'' ''x'' (account_of toy_crypto toy_world ''a@b'')"
  using login_refines_account [OF toy_ideal [unfolded toy_box_def box.simps] toy_enrolled(2) plain_a, of 5 unreachable 200 "''x''"]
  by (metis prod.collapse)

end
